theory Spec2Isabelle
  imports Complex_Main "HOL-Library.Stream"
begin

section \<open>Conventions of the embedding\<close>

text \<open>
  The Python sources under \<^verbatim>\<open>src/backend/engine\<close>, \<^verbatim>\<open>src/backend/runtime\<close> and
  \<^verbatim>\<open>src/runtime\<close> are embedded as HOL functions.
  \<^item> A Python \<^verbatim>\<open>float\<close> is a \<^typ>\<open>real\<close>: rounding, infinities and NaN are not modelled.
  \<^item> A Python \<^verbatim>\<open>int\<close> is an \<^typ>\<open>int\<close>, a \<^verbatim>\<open>str\<close> a \<^typ>\<open>string\<close>.
  \<^item> A \<^verbatim>\<open>dict\<close> that is iterated is an association list in insertion order; its keys are
    distinct in every state the program can build.
  \<^item> An exception is the \<open>Inl\<close> branch of a sum; the only exception the engine can raise on
    well-typed data is the \<^verbatim>\<open>KeyError\<close> of \<^verbatim>\<open>UNIT_TYPES[self.unit_type_id]\<close>.
  \<^item> The numpy generator behind \<^verbatim>\<open>DRNG\<close> is not code of the repository: the sequence of
    values of \<^verbatim>\<open>Generator(PCG64(seed)).random()\<close> is a parameter \<open>pcg\<close>, a stream of reals
    for each seed.
\<close>

section \<open>Domain model (model.py)\<close>

type_synonym Side = string
type_synonym Position = "real \<times> real"

datatype WeaponType = DIRECT_FIRE | INDIRECT_FIRE | SMALL_ARMS | ANTI_TANK

fun weapon_value :: "WeaponType \<Rightarrow> string" where
  "weapon_value DIRECT_FIRE = ''direct_fire''"
| "weapon_value INDIRECT_FIRE = ''indirect_fire''"
| "weapon_value SMALL_ARMS = ''small_arms''"
| "weapon_value ANTI_TANK = ''anti_tank''"

datatype UnitClass = RECON | INFANTRY | MBT | ARTILLERY

record UnitType =
  name :: string
  unit_class :: UnitClass
  max_hp :: real
  speed_mps :: real
  sensor_range_m :: real
  weapon_type :: WeaponType
  weapon_range_m :: real
  damage :: real
  reload_time_s :: real
  armor :: int
  visibility :: real
  max_ammo :: int

definition RECON_type :: UnitType where
  "RECON_type = \<lparr> name = ''Reconnaissance Vehicle'', unit_class = RECON, max_hp = 50,
     speed_mps = 4, sensor_range_m = 2500, weapon_type = SMALL_ARMS, weapon_range_m = 400,
     damage = 5, reload_time_s = 2, armor = 1, visibility = 1/2, max_ammo = 200 \<rparr>"

definition INFANTRY_type :: UnitType where
  "INFANTRY_type = \<lparr> name = ''Infantry Squad'', unit_class = INFANTRY, max_hp = 80,
     speed_mps = 3/2, sensor_range_m = 600, weapon_type = ANTI_TANK, weapon_range_m = 500,
     damage = 30, reload_time_s = 5, armor = 0, visibility = 8/10, max_ammo = 10 \<rparr>"

definition MBT_type :: UnitType where
  "MBT_type = \<lparr> name = ''Main Battle Tank'', unit_class = MBT, max_hp = 150,
     speed_mps = 2, sensor_range_m = 1000, weapon_type = DIRECT_FIRE, weapon_range_m = 3000,
     damage = 50, reload_time_s = 6, armor = 3, visibility = 3/2, max_ammo = 40 \<rparr>"

definition ARTILLERY_type :: UnitType where
  "ARTILLERY_type = \<lparr> name = ''Self-Propelled Howitzer'', unit_class = ARTILLERY, max_hp = 60,
     speed_mps = 3/2, sensor_range_m = 500, weapon_type = INDIRECT_FIRE, weapon_range_m = 15000,
     damage = 60, reload_time_s = 15, armor = 1, visibility = 12/10, max_ammo = 30 \<rparr>"

definition UNIT_TYPES :: "string \<Rightarrow> UnitType option" where
  "UNIT_TYPES k =
     (if k = ''RECON'' then Some RECON_type
      else if k = ''INFANTRY'' then Some INFANTRY_type
      else if k = ''MBT'' then Some MBT_type
      else if k = ''ARTILLERY'' then Some ARTILLERY_type
      else None)"

record Unit =
  uid :: string
  side :: Side
  unit_type_id :: string
  pos :: Position
  hp :: real
  ammo :: int
  target_id :: "string option"
  intent_target_pos :: "Position option"
  routed :: bool
  last_fire_time :: real
  spotted_by :: "string set"

datatype error = KeyError string

definition bindE :: "error + 'a \<Rightarrow> ('a \<Rightarrow> error + 'b) \<Rightarrow> error + 'b" where
  "bindE m f = (case m of Inl e \<Rightarrow> Inl e | Inr x \<Rightarrow> f x)"

definition get_type :: "Unit \<Rightarrow> error + UnitType" where
  "get_type u =
     (case UNIT_TYPES (unit_type_id u) of
        None \<Rightarrow> Inl (KeyError (unit_type_id u))
      | Some t \<Rightarrow> Inr t)"

record Order =
  kind :: string
  unit_id :: string
  target_pos :: "Position option"
  target_unit_id :: "string option"
  client_ts_ms :: int

text \<open>The values that occur in an event's payload dictionary.\<close>

datatype pyval = Str string | Num real | Lst "real list" | PyNone

record Event =
  ev_kind :: string
  ev_ts_ms :: int
  data :: "(string \<times> pyval) list"

definition mk_Event :: "string \<Rightarrow> int \<Rightarrow> (string \<times> pyval) list \<Rightarrow> Event" where
  "mk_Event k t d = \<lparr> ev_kind = k, ev_ts_ms = t, data = d \<rparr>"

type_synonym Units = "(string \<times> Unit) list"

record State =
  ts_ms :: int
  units :: Units
  battle_id :: string

section \<open>Event log (runtime/eventlog.py)\<close>

text \<open>Python's \<^verbatim>\<open>xs[a:b]\<close> for integers \<open>a\<close> and \<open>b\<close>: a negative bound counts from the end,
  and both bounds are clipped to the list.\<close>

definition slice_bound :: "int \<Rightarrow> int \<Rightarrow> int" where
  "slice_bound n i = (if i < 0 then max 0 (i + n) else min i n)"

definition py_slice :: "'a list \<Rightarrow> int \<Rightarrow> int \<Rightarrow> 'a list" where
  "py_slice xs a b =
     (let n = int (length xs); lo = slice_bound n a; hi = slice_bound n b
      in take (nat (hi - lo)) (drop (nat lo) xs))"

record EventLog =
  elog :: "Event list"

definition EventLog_init :: EventLog where
  "EventLog_init = \<lparr> elog = [] \<rparr>"

definition append_many :: "EventLog \<Rightarrow> Event list \<Rightarrow> (int \<times> int) \<times> EventLog" where
  "append_many l evts =
     (let start = int (length (elog l));
          l' = l\<lparr> elog := elog l @ evts \<rparr>;
          end = int (length (elog l')) - 1
      in ((start, end), l'))"

definition since :: "EventLog \<Rightarrow> int \<Rightarrow> int \<Rightarrow> Event list \<times> int" where
  "since l offset0 limit =
     (let offset = max 0 offset0;
          chunk = py_slice (elog l) offset (offset + limit)
      in (chunk, offset + int (length chunk)))"

section \<open>Tick scheduler (runtime/runner.py): the pacing state\<close>

record TickRunner =
  tick_ms :: int
  time_compression :: real
  sleep_s :: real

definition TickRunner_init :: "int \<Rightarrow> real \<Rightarrow> TickRunner" where
  "TickRunner_init tick tc =
     \<lparr> tick_ms = tick, time_compression = tc,
       sleep_s = (real_of_int tick / 1000) / max 1 tc \<rparr>"

definition set_time_compression :: "TickRunner \<Rightarrow> real \<Rightarrow> TickRunner" where
  "set_time_compression r tc =
     (let r1 = r\<lparr> time_compression := max (1/10) (min 1000 tc) \<rparr>
      in r1\<lparr> sleep_s := (real_of_int (tick_ms r1) / 1000) / max 1 (time_compression r1) \<rparr>)"

section \<open>Deterministic random generator (engine/rng.py)\<close>

text \<open>The generator object \<^verbatim>\<open>self.g\<close> is the stream of the values its \<^verbatim>\<open>random()\<close> will
  return; \<^verbatim>\<open>uniform\<close> is never called by the engine.\<close>

record DRNG =
  gen :: "real stream"

definition DRNG_init :: "(int \<Rightarrow> real stream) \<Rightarrow> int \<Rightarrow> DRNG" where
  "DRNG_init pcg seed = \<lparr> gen = pcg seed \<rparr>"

definition bernoulli :: "DRNG \<Rightarrow> real \<Rightarrow> bool \<times> DRNG" where
  "bernoulli r p = (shd (gen r) < p, r\<lparr> gen := stl (gen r) \<rparr>)"

section \<open>Simulation engine (engine/engine.py)\<close>

definition distance_2d :: "Position \<Rightarrow> Position \<Rightarrow> real" where
  "distance_2d pos1 pos2 =
     (let dx = fst pos2 - fst pos1; dy = snd pos2 - snd pos1
      in sqrt (dx * dx + dy * dy))"

record Engine =
  state :: State
  rng :: DRNG
  pending_orders :: "Order list"

text \<open>\<^verbatim>\<open>self.base_acc\<close> and \<^verbatim>\<open>self.decay_m\<close> are assigned once, in the constructor.\<close>

definition base_acc :: real where
  "base_acc = 7/10"

definition decay_m :: real where
  "decay_m = 800"

definition Engine_init :: "(int \<Rightarrow> real stream) \<Rightarrow> int \<Rightarrow> State \<Rightarrow> Engine" where
  "Engine_init pcg seed initial_state =
     \<lparr> state = initial_state, rng = DRNG_init pcg seed, pending_orders = [] \<rparr>"

definition apply_orders :: "Engine \<Rightarrow> Order list \<Rightarrow> Engine" where
  "apply_orders e orders = e\<lparr> pending_orders := pending_orders e @ orders \<rparr>"

text \<open>\<^verbatim>\<open>units.get(k)\<close>, and the in-place mutation of the unit stored under key \<open>k\<close>.\<close>

definition units_get :: "Units \<Rightarrow> string \<Rightarrow> Unit option" where
  "units_get us k = map_of us k"

definition units_upd :: "Units \<Rightarrow> string \<Rightarrow> (Unit \<Rightarrow> Unit) \<Rightarrow> Units" where
  "units_upd us k f = map (\<lambda>(k', u). if k' = k then (k', f u) else (k', u)) us"

subsection \<open>Phase 1: order application\<close>

definition apply_order :: "int \<Rightarrow> Order \<Rightarrow> Units \<Rightarrow> Event list \<times> Units" where
  "apply_order ts ord us =
     (case units_get us (unit_id ord) of
        None \<Rightarrow> ([], us)
      | Some u \<Rightarrow>
          if routed u then ([], us)
          else if kind ord = ''move'' \<and> target_pos ord \<noteq> None then
            (case target_pos ord of
               None \<Rightarrow> ([], us)
             | Some p \<Rightarrow>
                 ([mk_Event ''OrderAccepted'' ts
                     [(''unit_id'', Str (uid u)), (''kind'', Str ''move''),
                      (''to'', Lst [fst p, snd p])]],
                  units_upd us (unit_id ord) (\<lambda>u. u\<lparr> intent_target_pos := Some p \<rparr>)))
          else if kind ord = ''attack'' \<and> target_unit_id ord \<noteq> None
                  \<and> target_unit_id ord \<noteq> Some [] then
            (case target_unit_id ord of
               None \<Rightarrow> ([], us)
             | Some t \<Rightarrow>
                 ([mk_Event ''OrderAccepted'' ts
                     [(''unit_id'', Str (uid u)), (''kind'', Str ''attack''),
                      (''target'', Str t)]],
                  units_upd us (unit_id ord) (\<lambda>u. u\<lparr> target_id := Some t \<rparr>)))
          else if kind ord = ''defend'' then
            ([mk_Event ''OrderAccepted'' ts
                [(''unit_id'', Str (uid u)), (''kind'', Str ''defend'')]],
             units_upd us (unit_id ord)
               (\<lambda>u. u\<lparr> intent_target_pos := None, target_id := None \<rparr>))
          else ([], us))"

fun apply_orders_loop :: "int \<Rightarrow> Order list \<Rightarrow> Units \<Rightarrow> Event list \<times> Units" where
  "apply_orders_loop ts [] us = ([], us)"
| "apply_orders_loop ts (ord # orders) us =
     (let (ev, us1) = apply_order ts ord us;
          (evs, us2) = apply_orders_loop ts orders us1
      in (ev @ evs, us2))"

definition apply_orders_now :: "Engine \<Rightarrow> Event list \<times> Engine" where
  "apply_orders_now e =
     (let (evts, us) = apply_orders_loop (ts_ms (state e)) (pending_orders e) (units (state e))
      in (evts, e\<lparr> state := (state e)\<lparr> units := us \<rparr>, pending_orders := [] \<rparr>))"

subsection \<open>Phase 2: movement\<close>

text \<open>A loop over \<^verbatim>\<open>units.values()\<close> whose body reads and writes the current unit only.\<close>

fun for_each_unit :: "(Unit \<Rightarrow> error + Unit) \<Rightarrow> Units \<Rightarrow> error + Units" where
  "for_each_unit f [] = Inr []"
| "for_each_unit f ((k, u) # rest) =
     bindE (f u) (\<lambda>u'. bindE (for_each_unit f rest) (\<lambda>rest'. Inr ((k, u') # rest')))"

definition move_unit :: "int \<Rightarrow> Unit \<Rightarrow> error + Unit" where
  "move_unit dt_ms u =
     (let dt = real_of_int dt_ms / 1000 in
      case intent_target_pos u of
        None \<Rightarrow> Inr u
      | Some tgt \<Rightarrow>
          if routed u then Inr u
          else bindE (get_type u) (\<lambda>u_type.
            let dx = fst tgt - fst (pos u);
                dy = snd tgt - snd (pos u);
                dist_m = sqrt (dx * dx + dy * dy)
            in if dist_m < 1/10 then Inr u
               else
                 let dir_x = dx / dist_m;
                     dir_y = dy / dist_m;
                     max_step = speed_mps u_type * dt;
                     step_m = min max_step dist_m;
                     new_x = fst (pos u) + dir_x * step_m;
                     new_y = snd (pos u) + dir_y * step_m
                 in Inr (u\<lparr> pos := (new_x, new_y) \<rparr>)))"

definition move :: "int \<Rightarrow> Units \<Rightarrow> error + (Event list \<times> Units)" where
  "move dt_ms us = bindE (for_each_unit (move_unit dt_ms) us) (\<lambda>us'. Inr ([], us'))"

subsection \<open>Phase 3: spotting\<close>

definition can_detect :: "Unit \<Rightarrow> Unit \<Rightarrow> error + bool" where
  "can_detect detector target =
     (let dist_m = distance_2d (pos detector) (pos target) in
      bindE (get_type detector) (\<lambda>det_type.
      bindE (get_type target) (\<lambda>tgt_type.
        let effective_range = sensor_range_m det_type * visibility tgt_type
        in Inr (dist_m \<le> effective_range))))"

definition spot_target :: "Unit \<Rightarrow> Unit \<Rightarrow> error + Unit" where
  "spot_target detector target =
     (if side detector \<noteq> side target then
        bindE (can_detect detector target) (\<lambda>seen.
          if seen then Inr (target\<lparr> spotted_by := insert (uid detector) (spotted_by target) \<rparr>)
          else Inr target)
      else Inr target)"

text \<open>The outer loop visits the units by position in the dictionary and reads the detector
  from the current state; the positions are those of the list it is applied to.\<close>

fun spot_loop :: "nat list \<Rightarrow> Units \<Rightarrow> error + Units" where
  "spot_loop [] us = Inr us"
| "spot_loop (i # rest) us =
     (let detector = snd (us ! i) in
      if routed detector then spot_loop rest us
      else bindE (for_each_unit (spot_target detector) us) (spot_loop rest))"

definition update_spotting :: "Units \<Rightarrow> error + (Event list \<times> Units)" where
  "update_spotting us =
     (let cleared = map (\<lambda>(k, u). (k, u\<lparr> spotted_by := {} \<rparr>)) us in
      bindE (spot_loop [0..<length cleared] cleared) (\<lambda>us'. Inr ([], us')))"

subsection \<open>Phase 4: targeting\<close>

definition can_fire_at :: "Unit \<Rightarrow> Unit \<Rightarrow> real \<Rightarrow> error + bool" where
  "can_fire_at attacker target current_time =
     bindE (get_type attacker) (\<lambda>a_type.
       let time_since_fire = (current_time - last_fire_time attacker) / 1000 in
       if time_since_fire < reload_time_s a_type then Inr False
       else if ammo attacker \<le> 0 then Inr False
       else
         let dist_m = distance_2d (pos attacker) (pos target) in
         if dist_m > weapon_range_m a_type then Inr False
         else if weapon_type a_type = DIRECT_FIRE \<or> weapon_type a_type = SMALL_ARMS
                 \<or> weapon_type a_type = ANTI_TANK then
           can_detect attacker target
         else if weapon_type a_type = INDIRECT_FIRE then Inr (spotted_by target \<noteq> {})
         else Inr False)"

text \<open>The inner loop: \<open>best\<close> is the pair of \<^verbatim>\<open>best_target\<close> and \<^verbatim>\<open>best_dist\<close>, \<open>None\<close> while
  they are \<^verbatim>\<open>None\<close> and infinity.\<close>

fun best_target_loop ::
  "int \<Rightarrow> Unit \<Rightarrow> Units \<Rightarrow> (string \<times> real) option \<Rightarrow> error + (string \<times> real) option" where
  "best_target_loop ts u [] best = Inr best"
| "best_target_loop ts u ((t_id, t) # rest) best =
     (if side u = side t \<or> hp t \<le> 0 then best_target_loop ts u rest best
      else bindE (can_fire_at u t (real_of_int ts)) (\<lambda>ok.
        if ok then
          (let dist_m = distance_2d (pos u) (pos t) in
           if (case best of None \<Rightarrow> True | Some (b, best_dist) \<Rightarrow> dist_m < best_dist)
           then best_target_loop ts u rest (Some (t_id, dist_m))
           else best_target_loop ts u rest best)
        else best_target_loop ts u rest best))"

text \<open>\<^verbatim>\<open>if best_target:\<close> is false for \<^verbatim>\<open>None\<close> and for the empty string.\<close>

fun find_targets_loop :: "int \<Rightarrow> Units \<Rightarrow> Units \<Rightarrow> error + (string \<times> string) list" where
  "find_targets_loop ts us [] = Inr []"
| "find_targets_loop ts us ((u_id, u) # rest) =
     (if routed u then find_targets_loop ts us rest
      else bindE (best_target_loop ts u us None) (\<lambda>best.
           bindE (find_targets_loop ts us rest) (\<lambda>targets.
             case best of
               None \<Rightarrow> Inr targets
             | Some (t_id, d) \<Rightarrow> if t_id \<noteq> [] then Inr ((u_id, t_id) # targets)
                                 else Inr targets)))"

definition find_targets :: "int \<Rightarrow> Units \<Rightarrow> error + (string \<times> string) list" where
  "find_targets ts us = find_targets_loop ts us us"

subsection \<open>Phase 5: combat\<close>

text \<open>The \<^verbatim>\<open>if\<close>/\<^verbatim>\<open>elif\<close> chain of \<^verbatim>\<open>_calculate_damage\<close>, on the weapon type of the attacker
  and the armor of the target.\<close>

definition damage_by_armor :: "WeaponType \<Rightarrow> int \<Rightarrow> real \<Rightarrow> real" where
  "damage_by_armor weapon armor_level base_damage =
     (if weapon = SMALL_ARMS \<and> armor_level \<ge> 2 then base_damage * (1/10)
      else if weapon = ANTI_TANK then
        (if armor_level \<ge> 2 then base_damage * (3/2) else base_damage)
      else if weapon = DIRECT_FIRE then
        (if armor_level \<ge> 3 then base_damage * (8/10)
         else if armor_level \<ge> 2 then base_damage * (12/10)
         else base_damage * (3/2))
      else if weapon = INDIRECT_FIRE then
        (if armor_level = 0 then base_damage * 2
         else if armor_level = 1 then base_damage * (12/10)
         else base_damage * (6/10))
      else base_damage)"

definition calculate_damage :: "Unit \<Rightarrow> Unit \<Rightarrow> real \<Rightarrow> error + real" where
  "calculate_damage attacker target base_damage =
     bindE (get_type attacker) (\<lambda>a_type.
     bindE (get_type target) (\<lambda>t_type.
       Inr (damage_by_armor (weapon_type a_type) (armor t_type) base_damage)))"

definition hit_probability :: "real \<Rightarrow> real" where
  "hit_probability dist_m = max 0 (min (95/100) (base_acc * exp (- dist_m / decay_m)))"

text \<open>One iteration of the combat loop. The shooter and the target are distinct objects
  whenever the pair comes from targeting (their sides differ); the target's hit points are
  not touched by the shooter's update, so reading them before it is the same.\<close>

definition combat_pair ::
  "int \<Rightarrow> string \<times> string \<Rightarrow> Units \<Rightarrow> DRNG \<Rightarrow> error + (Event list \<times> Units \<times> DRNG)" where
  "combat_pair ts pair us r =
     (let shooter_id = fst pair; target_id = snd pair in
      case units_get us shooter_id of
        None \<Rightarrow> Inr ([], us, r)
      | Some s \<Rightarrow>
         (case units_get us target_id of
            None \<Rightarrow> Inr ([], us, r)
          | Some t \<Rightarrow>
              if routed s \<or> hp t \<le> 0 then Inr ([], us, r)
              else bindE (get_type s) (\<lambda>s_type.
                let dist_m = distance_2d (pos s) (pos t);
                    p = hit_probability dist_m;
                    shot = mk_Event ''ShotFired'' ts
                             [(''shooter'', Str (uid s)), (''target'', Str (uid t)),
                              (''dist_m'', Num dist_m), (''p'', Num p),
                              (''weapon'', Str (weapon_value (weapon_type s_type)))];
                    us1 = units_upd us shooter_id
                            (\<lambda>s. s\<lparr> ammo := ammo s - 1, last_fire_time := real_of_int ts \<rparr>);
                    (hit, r1) = bernoulli r p
                in if hit then
                     (let base_dmg = damage s_type in
                      bindE (calculate_damage s t base_dmg) (\<lambda>final_dmg.
                        let new_hp = hp t - final_dmg;
                            us2 = units_upd us1 target_id (\<lambda>t. t\<lparr> hp := hp t - final_dmg \<rparr>);
                            dmg = mk_Event ''Damage'' ts
                                    [(''target'', Str (uid t)), (''dmg'', Num final_dmg),
                                     (''hp'', Num new_hp), (''shooter'', Str (uid s))]
                        in if new_hp \<le> 0 then
                             Inr ([shot, dmg,
                                   mk_Event ''Destroyed'' ts
                                     [(''unit_id'', Str (uid t)), (''killer'', Str (uid s))]],
                                  us2, r1)
                           else Inr ([shot, dmg], us2, r1)))
                   else Inr ([shot], us1, r1))))"

fun combat_loop ::
  "int \<Rightarrow> (string \<times> string) list \<Rightarrow> Units \<Rightarrow> DRNG \<Rightarrow> error + (Event list \<times> Units \<times> DRNG)" where
  "combat_loop ts [] us r = Inr ([], us, r)"
| "combat_loop ts (pair # rest) us r =
     bindE (combat_pair ts pair us r) (\<lambda>(ev, us1, r1).
     bindE (combat_loop ts rest us1 r1) (\<lambda>(evs, us2, r2).
       Inr (ev @ evs, us2, r2)))"

definition combat ::
  "int \<Rightarrow> int \<Rightarrow> (string \<times> string) list \<Rightarrow> Units \<Rightarrow> DRNG \<Rightarrow> error + (Event list \<times> Units \<times> DRNG)" where
  "combat dt_ms ts targets us r = combat_loop ts targets us r"

subsection \<open>Phase 6: morale\<close>

definition morale_unit :: "int \<Rightarrow> Unit \<Rightarrow> DRNG \<Rightarrow> error + (Event list \<times> Unit \<times> DRNG)" where
  "morale_unit ts u r =
     (if routed u then Inr ([], u, r)
      else bindE (get_type u) (\<lambda>u_type.
        let hp_pct = max 0 (hp u) / max_hp u_type in
        if hp_pct < 3/10 then
          (let (b, r1) = bernoulli r (1/2) in
           if b then Inr ([mk_Event ''Routed'' ts [(''unit_id'', Str (uid u))]],
                          u\<lparr> routed := True \<rparr>, r1)
           else Inr ([], u, r1))
        else Inr ([], u, r)))"

fun morale_loop :: "int \<Rightarrow> Units \<Rightarrow> DRNG \<Rightarrow> error + (Event list \<times> Units \<times> DRNG)" where
  "morale_loop ts [] r = Inr ([], [], r)"
| "morale_loop ts ((k, u) # rest) r =
     bindE (morale_unit ts u r) (\<lambda>(ev, u', r1).
     bindE (morale_loop ts rest r1) (\<lambda>(evs, rest', r2).
       Inr (ev @ evs, (k, u') # rest', r2)))"

definition morale :: "int \<Rightarrow> Units \<Rightarrow> DRNG \<Rightarrow> error + (Event list \<times> Units \<times> DRNG)" where
  "morale ts us r = morale_loop ts us r"

subsection \<open>The step\<close>

definition step :: "Engine \<Rightarrow> int \<Rightarrow> error + (Event list \<times> Engine)" where
  "step e dt_ms =
     (let (ev1, e1) = apply_orders_now e;
          ts = ts_ms (state e1)
      in bindE (move dt_ms (units (state e1))) (\<lambda>(ev2, us2).
         bindE (update_spotting us2) (\<lambda>(ev3, us3).
         bindE (find_targets ts us3) (\<lambda>targets.
         bindE (combat dt_ms ts targets us3 (rng e1)) (\<lambda>(ev5, us5, r5).
         bindE (morale ts us5 r5) (\<lambda>(ev6, us6, r6).
           Inr (ev1 @ ev2 @ ev3 @ ev5 @ ev6,
                e1\<lparr> state := (state e1)\<lparr> units := us6, ts_ms := ts + dt_ms \<rparr>,
                    rng := r6 \<rparr>)))))))"


subsection \<open>Sequences of calls on one engine\<close>

datatype call = Apply_orders "Order list" | Step int

text \<open>The events returned by the \<^verbatim>\<open>step\<close> calls, one list per call, and the engine at the
  end; an exception ends the run.\<close>

fun run_calls :: "Engine \<Rightarrow> call list \<Rightarrow> error + (Event list list \<times> Engine)" where
  "run_calls e [] = Inr ([], e)"
| "run_calls e (Apply_orders orders # cs) = run_calls (apply_orders e orders) cs"
| "run_calls e (Step dt_ms # cs) =
     bindE (step e dt_ms) (\<lambda>(evts, e1).
     bindE (run_calls e1 cs) (\<lambda>(rest, e2). Inr (evts # rest, e2)))"

section \<open>Definitions used to state the properties\<close>

text \<open>The weapon-versus-armor multipliers as the specification tabulates them (section 4.2a):
  small arms 1 below armor 2 and 0.1 from armor 2; anti-tank 1 below armor 2 and 1.5 from
  armor 2; direct fire 1.5 below armor 2, 1.2 at armor 2, 0.8 from armor 3; indirect fire
  2.0 at armor 0, 1.2 at armor 1, 0.6 from armor 2.\<close>

definition spec_multiplier :: "WeaponType \<Rightarrow> int \<Rightarrow> real" where
  "spec_multiplier w a =
     (case w of
        SMALL_ARMS \<Rightarrow> (if a \<ge> 2 then 1/10 else 1)
      | ANTI_TANK \<Rightarrow> (if a \<ge> 2 then 3/2 else 1)
      | DIRECT_FIRE \<Rightarrow> (if a < 2 then 3/2 else if a = 2 then 12/10 else 8/10)
      | INDIRECT_FIRE \<Rightarrow> (if a = 0 then 2 else if a = 1 then 12/10 else 6/10))"

subsection \<open>Example data\<close>

definition example_unit :: "string \<Rightarrow> Side \<Rightarrow> string \<Rightarrow> Position \<Rightarrow> real \<Rightarrow> int \<Rightarrow> Unit" where
  "example_unit i s t p h a =
     \<lparr> uid = i, side = s, unit_type_id = t, pos = p, hp = h, ammo = a, target_id = None,
       intent_target_pos = None, routed = False, last_fire_time = 0, spotted_by = {} \<rparr>"

definition example_blue :: Unit where
  "example_blue = example_unit ''B1'' ''BLUE'' ''RECON'' (0, 0) 40 200"

definition example_red :: Unit where
  "example_red = example_unit ''R1'' ''RED'' ''INFANTRY'' (0, 0) 80 10"

definition example_units :: Units where
  "example_units = [(''B1'', example_blue), (''R1'', example_red)]"

definition example_state :: State where
  "example_state = \<lparr> ts_ms = 10000, units = example_units, battle_id = ''local'' \<rparr>"

definition example_log :: EventLog where
  "example_log = \<lparr> elog = [mk_Event ''OrderAccepted'' 0 [], mk_Event ''ShotFired'' 500 [],
                           mk_Event ''Routed'' 500 []] \<rparr>"

subsection \<open>Relating the unit dictionary before and after a phase\<close>

text \<open>Two unit dictionaries with the same keys in the same order, whose units under the same
  key are related by \<open>P\<close>.\<close>

definition units_rel :: "(Unit \<Rightarrow> Unit \<Rightarrow> bool) \<Rightarrow> Units \<Rightarrow> Units \<Rightarrow> bool" where
  "units_rel P us us' = list_all2 (\<lambda>a b. fst a = fst b \<and> P (snd a) (snd b)) us us'"

text \<open>An order changes the two intent fields only, and leaves every unit alone when the unit
  it names is routed.\<close>

definition order_frame :: "Unit \<Rightarrow> Unit \<Rightarrow> bool" where
  "order_frame u u' \<longleftrightarrow>
     u' = u\<lparr> intent_target_pos := intent_target_pos u', target_id := target_id u' \<rparr>
     \<and> (routed u \<longrightarrow> u' = u)"

text \<open>Movement changes the position only, and nothing of a routed unit.\<close>

definition move_frame :: "Unit \<Rightarrow> Unit \<Rightarrow> bool" where
  "move_frame u u' \<longleftrightarrow> u' = u\<lparr> pos := pos u' \<rparr> \<and> (routed u \<longrightarrow> u' = u)"

text \<open>Spotting changes the spotted-by set only.\<close>

definition spot_frame :: "Unit \<Rightarrow> Unit \<Rightarrow> bool" where
  "spot_frame u u' \<longleftrightarrow> u' = u\<lparr> spotted_by := spotted_by u' \<rparr>"

text \<open>Combat changes ammo, last fire time and hit points only; ammo and last fire time of a
  routed unit stay.\<close>

definition combat_frame :: "Unit \<Rightarrow> Unit \<Rightarrow> bool" where
  "combat_frame u u' \<longleftrightarrow>
     u' = u\<lparr> ammo := ammo u', last_fire_time := last_fire_time u', hp := hp u' \<rparr>
     \<and> (routed u \<longrightarrow> ammo u' = ammo u \<and> last_fire_time u' = last_fire_time u)"

text \<open>Morale changes the routed flag only, and only from false to true.\<close>

definition morale_frame :: "Unit \<Rightarrow> Unit \<Rightarrow> bool" where
  "morale_frame u u' \<longleftrightarrow> u' = u\<lparr> routed := routed u' \<rparr> \<and> (routed u \<longrightarrow> routed u')"

subsection \<open>Reading events\<close>

text \<open>A ShotFired event whose payload names \<open>i\<close> as the shooter, and an OrderAccepted event
  whose payload names \<open>i\<close> as the unit.\<close>

definition shot_by :: "string \<Rightarrow> Event \<Rightarrow> bool" where
  "shot_by i ev \<longleftrightarrow> ev_kind ev = ''ShotFired'' \<and> map_of (data ev) ''shooter'' = Some (Str i)"

definition order_accepted_for :: "string \<Rightarrow> Event \<Rightarrow> bool" where
  "order_accepted_for i ev \<longleftrightarrow>
     ev_kind ev = ''OrderAccepted'' \<and> map_of (data ev) ''unit_id'' = Some (Str i)"

text \<open>The update of the shooter in a combat iteration.\<close>

definition fire_upd :: "int \<Rightarrow> Unit \<Rightarrow> Unit" where
  "fire_upd ts s = s\<lparr> ammo := ammo s - 1, last_fire_time := real_of_int ts \<rparr>"

subsection \<open>Well-formed unit dictionaries\<close>

text \<open>The keys of a dictionary are distinct; the identifiers of the units are unique, as the
  data model requires.\<close>

definition wf_units :: "Units \<Rightarrow> bool" where
  "wf_units us \<longleftrightarrow> distinct (map fst us) \<and> distinct (map (\<lambda>a. uid (snd a)) us)"

subsection \<open>Order of events\<close>

definition combat_kind :: "string \<Rightarrow> bool" where
  "combat_kind k \<longleftrightarrow> k = ''ShotFired'' \<or> k = ''Damage'' \<or> k = ''Destroyed''"

text \<open>Every event of the list that satisfies \<open>P\<close> stands before every event that satisfies \<open>Q\<close>.\<close>

definition precedes :: "(Event \<Rightarrow> bool) \<Rightarrow> (Event \<Rightarrow> bool) \<Rightarrow> Event list \<Rightarrow> bool" where
  "precedes P Q evts \<longleftrightarrow>
     (\<forall>i j. i < length evts \<and> j < length evts \<and> P (evts ! i) \<and> Q (evts ! j) \<longrightarrow> i < j)"

subsection \<open>Example engines\<close>

definition move_order :: "string \<Rightarrow> Position \<Rightarrow> Order" where
  "move_order k p = \<lparr> kind = ''move'', unit_id = k, target_pos = Some p,
                      target_unit_id = None, client_ts_ms = 0 \<rparr>"

text \<open>An engine whose generator always returns 0 (every trial succeeds), and one whose
  generator always returns 0.96 (every trial fails).\<close>

definition always_hit :: "int \<Rightarrow> real stream" where
  "always_hit seed = sconst 0"

definition always_miss :: "int \<Rightarrow> real stream" where
  "always_miss seed = sconst (96/100)"

definition example_engine :: "(int \<Rightarrow> real stream) \<Rightarrow> Order list \<Rightarrow> Engine" where
  "example_engine pcg orders = apply_orders (Engine_init pcg 42 example_state) orders"

subsection \<open>Movement as the specification words it\<close>


subsection \<open>Spotting\<close>

text \<open>The identifier a detector contributes to the spotted-by set of a target.\<close>

definition spots :: "Unit \<Rightarrow> Unit \<Rightarrow> string set" where
  "spots d t = (if \<not> routed d \<and> side d \<noteq> side t \<and> can_detect d t = Inr True
                then {uid d} else {})"

text \<open>The example state with the blue unit routed.\<close>

definition example_routed_state :: State where
  "example_routed_state =
     example_state\<lparr> units := [(''B1'', example_blue\<lparr> routed := True \<rparr>), (''R1'', example_red)] \<rparr>"

definition example_routed_engine :: Engine where
  "example_routed_engine = Engine_init always_hit 42 example_routed_state"



subsection \<open>States up to the attack target\<close>

text \<open>Forgetting the \<open>target_id\<close> of every unit: two states differ only in their units'
  \<open>target_id\<close> fields when they agree after this.\<close>

definition erase_target :: "Unit \<Rightarrow> Unit" where
  "erase_target u = u\<lparr> target_id := None \<rparr>"

definition erase_units :: "Units \<Rightarrow> Units" where
  "erase_units us = map (\<lambda>a. (fst a, erase_target (snd a))) us"

definition erase_engine :: "Engine \<Rightarrow> Engine" where
  "erase_engine e = e\<lparr> state := (state e)\<lparr> units := erase_units (units (state e)) \<rparr> \<rparr>"

text \<open>Results up to the attack target.\<close>

definition erase_res :: "error + Units \<Rightarrow> error + Units" where
  "erase_res m = (case m of Inl x \<Rightarrow> Inl x | Inr us \<Rightarrow> Inr (erase_units us))"

definition erase_unit_res :: "error + Unit \<Rightarrow> error + Unit" where
  "erase_unit_res m = (case m of Inl x \<Rightarrow> Inl x | Inr u \<Rightarrow> Inr (erase_target u))"

definition erase_ev_res :: "error + (Event list \<times> Units) \<Rightarrow> error + (Event list \<times> Units)" where
  "erase_ev_res m = (case m of Inl x \<Rightarrow> Inl x | Inr (ev, us) \<Rightarrow> Inr (ev, erase_units us))"

definition erase_combat_res ::
  "error + (Event list \<times> Units \<times> DRNG) \<Rightarrow> error + (Event list \<times> Units \<times> DRNG)" where
  "erase_combat_res m =
     (case m of Inl x \<Rightarrow> Inl x | Inr (ev, us, r) \<Rightarrow> Inr (ev, erase_units us, r))"

definition erase_step_res :: "error + (Event list \<times> Engine) \<Rightarrow> error + (Event list \<times> Engine)" where
  "erase_step_res m = (case m of Inl x \<Rightarrow> Inl x | Inr (ev, e) \<Rightarrow> Inr (ev, erase_engine e))"

text \<open>Phases 2 to 6 of a step, on the unit dictionary.\<close>

definition later_phases ::
  "int \<Rightarrow> int \<Rightarrow> Units \<Rightarrow> DRNG \<Rightarrow> error + (Event list \<times> Units \<times> DRNG)" where
  "later_phases dt_ms ts us r =
     bindE (move dt_ms us) (\<lambda>(ev2, us2).
     bindE (update_spotting us2) (\<lambda>(ev3, us3).
     bindE (find_targets ts us3) (\<lambda>targets.
     bindE (combat dt_ms ts targets us3 r) (\<lambda>(ev5, us5, r5).
     bindE (morale ts us5 r5) (\<lambda>(ev6, us6, r6).
       Inr (ev2 @ ev3 @ ev5 @ ev6, us6, r6))))))"

text \<open>The example engine with another attack target stored in the blue unit.\<close>

definition example_retargeted_engine :: Engine where
  "example_retargeted_engine =
     Engine_init always_hit 42
       (example_state\<lparr> units := [(''B1'', example_blue\<lparr> target_id := Some ''R9'' \<rparr>),
                                 (''R1'', example_red)] \<rparr>)"

subsection \<open>Calls up to the client timestamp\<close>




section \<open>Basic facts about the model\<close>

lemmas example_defs = example_unit_def example_blue_def example_red_def example_units_def
  example_state_def move_order_def always_hit_def always_miss_def example_engine_def
  Engine_init_def DRNG_init_def apply_orders_def

text \<open>The definitions a concrete run unfolds; \<open>hit_probability\<close> stays folded.\<close>

lemmas run_defs = step_def apply_orders_now_def apply_order_def move_def move_unit_def
  update_spotting_def spot_target_def can_detect_def get_type_def UNIT_TYPES_def
  find_targets_def can_fire_at_def combat_def combat_pair_def calculate_damage_def
  damage_by_armor_def morale_def morale_unit_def bernoulli_def bindE_def units_get_def
  units_upd_def distance_2d_def mk_Event_def RECON_type_def INFANTRY_type_def MBT_type_def
  ARTILLERY_type_def Let_def upt_rec

lemma hit_probability_pos: "0 < hit_probability d"
  by (simp add: hit_probability_def base_acc_def decay_m_def)

lemma hit_probability_le: "hit_probability d \<le> 95/100"
  by (simp add: hit_probability_def)

lemma hit_probability_miss: "\<not> 96/100 < hit_probability d"
  using hit_probability_le[of d] by simp

lemma sqrt_100: "sqrt 100 = 10"
  by (rule real_sqrt_unique) simp_all

lemma units_get_upd:
  "units_get (units_upd us k f) k' =
     (if k' = k then map_option f (units_get us k) else units_get us k')"
  by (induction us) (auto simp: units_get_def units_upd_def)

lemma get_type_cases:
  assumes "get_type u = Inr t"
  shows "t = RECON_type \<or> t = INFANTRY_type \<or> t = MBT_type \<or> t = ARTILLERY_type"
  using assms by (auto simp: get_type_def UNIT_TYPES_def split: if_splits)

lemma catalog_armor: "get_type u = Inr t \<Longrightarrow> 0 \<le> armor t"
  by (auto dest!: get_type_cases
      simp: RECON_type_def INFANTRY_type_def MBT_type_def ARTILLERY_type_def)

lemma damage_by_armor_table: "0 \<le> a \<Longrightarrow> damage_by_armor w a b = b * spec_multiplier w a"
  by (cases w) (auto simp: damage_by_armor_def spec_multiplier_def)

lemma units_rel_Nil [simp]: "units_rel P [] []"
  by (simp add: units_rel_def)

lemma units_rel_Cons [simp]:
  "units_rel P (a # us) (b # us') \<longleftrightarrow> fst a = fst b \<and> P (snd a) (snd b) \<and> units_rel P us us'"
  by (simp add: units_rel_def)

lemma units_rel_length: "units_rel P us us' \<Longrightarrow> length us' = length us"
  by (simp add: units_rel_def list_all2_lengthD)

lemma units_rel_nth:
  "units_rel P us us' \<Longrightarrow> i < length us \<Longrightarrow>
     fst (us' ! i) = fst (us ! i) \<and> P (snd (us ! i)) (snd (us' ! i))"
  by (simp add: units_rel_def list_all2_conv_all_nth)

lemma units_rel_keys: "units_rel P us us' \<Longrightarrow> map fst us' = map fst us"
  by (induction us arbitrary: us') (auto simp: units_rel_def list_all2_Cons1)

lemma units_rel_refl: "(\<And>u. P u u) \<Longrightarrow> units_rel P us us"
  by (simp add: units_rel_def list_all2_same)

lemma units_rel_mono:
  "units_rel P us us' \<Longrightarrow> (\<And>u u'. P u u' \<Longrightarrow> Q u u') \<Longrightarrow> units_rel Q us us'"
  unfolding units_rel_def by (erule list_all2_mono) auto

lemma units_rel_trans:
  "units_rel P a b \<Longrightarrow> units_rel Q b c \<Longrightarrow> (\<And>u v w. P u v \<Longrightarrow> Q v w \<Longrightarrow> R u w)
     \<Longrightarrow> units_rel R a c"
  unfolding units_rel_def
  by (erule (1) list_all2_trans[rotated]) auto

lemma units_rel_get:
  "units_rel P us us' \<Longrightarrow> units_get us k = Some u \<Longrightarrow>
     \<exists>u'. units_get us' k = Some u' \<and> P u u'"
  by (induction us arbitrary: us')
     (auto simp: units_rel_def units_get_def list_all2_Cons1 split: if_splits)

lemma units_rel_get_None:
  "units_rel P us us' \<Longrightarrow> units_get us k = None \<Longrightarrow> units_get us' k = None"
  by (induction us arbitrary: us')
     (auto simp: units_rel_def units_get_def list_all2_Cons1 split: if_splits)

lemma units_upd_rel:
  "units_rel (\<lambda>u u'. u' = u \<or> u' = f u) us (units_upd us k f)"
  by (induction us) (auto simp: units_upd_def)

lemma units_upd_nth:
  "i < length us \<Longrightarrow>
     units_upd us k f ! i = (fst (us ! i), if fst (us ! i) = k then f (snd (us ! i)) else snd (us ! i))"
  by (auto simp: units_upd_def split: prod.splits)

lemma units_upd_length [simp]: "length (units_upd us k f) = length us"
  by (simp add: units_upd_def)

lemma units_upd_keys [simp]: "map fst (units_upd us k f) = map fst us"
  by (induction us) (auto simp: units_upd_def)

lemma bindE_Inr_iff:
  "bindE m f = Inr y \<longleftrightarrow> (\<exists>x. m = Inr x \<and> f x = Inr y)"
  by (cases m) (auto simp: bindE_def)

lemma for_each_unit_rel:
  "for_each_unit f us = Inr us' \<Longrightarrow> units_rel (\<lambda>u u'. f u = Inr u') us us'"
  by (induction f us arbitrary: us' rule: for_each_unit.induct)
     (auto simp: bindE_Inr_iff)

lemma units_get_nth:
  "distinct (map fst us) \<Longrightarrow> i < length us \<Longrightarrow> units_get us (fst (us ! i)) = Some (snd (us ! i))"
  by (simp add: units_get_def)

lemma units_get_mem: "units_get us k = Some u \<Longrightarrow> (k, u) \<in> set us"
  by (simp add: units_get_def map_of_SomeD)

subsection \<open>Order application\<close>

lemma apply_order_kinds:
  "apply_order ts ord us = (ev, us') \<Longrightarrow> \<forall>x \<in> set ev. ev_kind x = ''OrderAccepted''"
  by (auto simp: apply_order_def mk_Event_def split: option.splits if_splits)

lemma apply_orders_loop_kinds:
  "apply_orders_loop ts orders us = (ev, us') \<Longrightarrow> \<forall>x \<in> set ev. ev_kind x = ''OrderAccepted''"
proof (induction orders arbitrary: us ev us')
  case Nil
  then show ?case by simp
next
  case (Cons ord orders)
  obtain ev1 us1 where a: "apply_order ts ord us = (ev1, us1)" by (cases "apply_order ts ord us")
  obtain evs us2 where b: "apply_orders_loop ts orders us1 = (evs, us2)"
    by (cases "apply_orders_loop ts orders us1")
  from Cons.prems a b have "ev = ev1 @ evs" by simp
  with apply_order_kinds[OF a] Cons.IH[OF b] show ?case by auto
qed

lemma apply_order_shape:
  assumes "apply_order ts ord us = (ev, us')"
    and "units_get us (unit_id ord) = Some u" and "\<not> routed u"
  shows "us' = us
    \<or> (\<exists>q. us' = units_upd us (unit_id ord) (\<lambda>u. u\<lparr> intent_target_pos := q \<rparr>))
    \<or> (\<exists>t. us' = units_upd us (unit_id ord) (\<lambda>u. u\<lparr> target_id := t \<rparr>))
    \<or> us' = units_upd us (unit_id ord) (\<lambda>u. u\<lparr> intent_target_pos := None, target_id := None \<rparr>)"
  using assms unfolding apply_order_def
  by (simp split: option.splits if_splits) blast+

lemma units_upd_one:
  assumes "distinct (map fst us)" and "units_get us k = Some u" and "P u (f u)"
    and "\<And>v. P v v"
  shows "units_rel P us (units_upd us k f)"
proof -
  have key: "\<And>v. (k, v) \<in> set us \<Longrightarrow> v = u"
    using assms(1,2) by (simp add: units_get_def)
  have "list_all2 (\<lambda>a b. fst a = fst b \<and> P (snd a) (snd b)) us (units_upd us k f)"
    unfolding list_all2_conv_all_nth
  proof (intro conjI allI impI)
    show "length us = length (units_upd us k f)" by simp
  next
    fix i assume i: "i < length us"
    show "fst (us ! i) = fst (units_upd us k f ! i)"
      using i by (simp add: units_upd_nth)
  next
    fix i assume i: "i < length us"
    show "P (snd (us ! i)) (snd (units_upd us k f ! i))"
    proof (cases "fst (us ! i) = k")
      case True
      then have "(k, snd (us ! i)) \<in> set us"
        using i by (metis nth_mem prod.collapse)
      then have "snd (us ! i) = u" by (rule key)
      with assms(3) True i show ?thesis by (simp add: units_upd_nth)
    next
      case False
      then show ?thesis using i assms(4) by (simp add: units_upd_nth)
    qed
  qed
  then show ?thesis by (simp add: units_rel_def)
qed

lemma apply_order_frame:
  assumes "distinct (map fst us)" and "apply_order ts ord us = (ev, us')"
  shows "units_rel order_frame us us'"
proof (cases "units_get us (unit_id ord)")
  case None
  with assms(2) have "us' = us" by (simp add: apply_order_def)
  then show ?thesis by (simp add: units_rel_refl order_frame_def)
next
  case (Some u)
  show ?thesis
  proof (cases "routed u")
    case True
    with Some assms(2) have "us' = us" by (simp add: apply_order_def)
    then show ?thesis by (simp add: units_rel_refl order_frame_def)
  next
    case False
    have r: "\<And>v. order_frame v v" by (simp add: order_frame_def)
    from apply_order_shape[OF assms(2) Some False]
    show ?thesis
      using False
      by (elim disjE exE)
         (simp_all add: units_rel_refl r units_upd_one[OF assms(1) Some] order_frame_def)
  qed
qed

lemma order_frame_trans: "order_frame u v \<Longrightarrow> order_frame v w \<Longrightarrow> order_frame u w"
  unfolding order_frame_def
  by (cases u, cases v, cases w) auto

lemma apply_orders_loop_frame:
  "distinct (map fst us) \<Longrightarrow> apply_orders_loop ts orders us = (ev, us') \<Longrightarrow>
     units_rel order_frame us us'"
proof (induction orders arbitrary: us ev us')
  case Nil
  then show ?case by (simp add: units_rel_refl order_frame_def)
next
  case (Cons ord orders)
  obtain ev1 us1 where a: "apply_order ts ord us = (ev1, us1)" by (cases "apply_order ts ord us")
  obtain evs us2 where b: "apply_orders_loop ts orders us1 = (evs, us2)"
    by (cases "apply_orders_loop ts orders us1")
  from Cons.prems(2) a b have e: "us' = us2" by simp
  have r1: "units_rel order_frame us us1"
    using Cons.prems(1) a by (rule apply_order_frame)
  then have "distinct (map fst us1)"
    using Cons.prems(1) by (simp add: units_rel_keys)
  then have r2: "units_rel order_frame us1 us2"
    using b by (rule Cons.IH)
  show ?case unfolding e
    using r1 r2 by (rule units_rel_trans) (rule order_frame_trans)
qed

lemma apply_orders_now_facts:
  assumes "apply_orders_now e = (ev1, e1)"
  shows "apply_orders_loop (ts_ms (state e)) (pending_orders e) (units (state e))
            = (ev1, units (state e1))"
    and "ts_ms (state e1) = ts_ms (state e)" and "rng e1 = rng e"
    and "pending_orders e1 = []" and "battle_id (state e1) = battle_id (state e)"
  using assms by (auto simp: apply_orders_now_def split: prod.splits)

subsection \<open>Movement\<close>

lemma move_unit_frame: "move_unit dt_ms u = Inr u' \<Longrightarrow> move_frame u u'"
  by (auto simp: move_unit_def move_frame_def Let_def bindE_Inr_iff
      split: option.splits if_splits)

lemma move_events: "move dt_ms us = Inr (ev, us') \<Longrightarrow> ev = [] \<and> for_each_unit (move_unit dt_ms) us = Inr us'"
  by (auto simp: move_def bindE_Inr_iff)

lemma move_frame_rel: "move dt_ms us = Inr (ev, us') \<Longrightarrow> units_rel move_frame us us'"
  by (auto dest!: move_events for_each_unit_rel elim!: units_rel_mono intro: move_unit_frame)

subsection \<open>Spotting\<close>

lemma spot_target_frame: "spot_target d t = Inr t' \<Longrightarrow> spot_frame t t'"
  by (auto simp: spot_target_def spot_frame_def bindE_Inr_iff split: if_splits)

lemma spot_frame_trans: "spot_frame u v \<Longrightarrow> spot_frame v w \<Longrightarrow> spot_frame u w"
  unfolding spot_frame_def by (cases u, cases v, cases w) auto

lemma spot_loop_frame: "spot_loop is us = Inr us' \<Longrightarrow> units_rel spot_frame us us'"
proof (induction "is" arbitrary: us)
  case Nil
  then show ?case by (simp add: units_rel_refl spot_frame_def)
next
  case (Cons i "is")
  show ?case
  proof (cases "routed (snd (us ! i))")
    case True
    with Cons show ?thesis by (simp add: Let_def)
  next
    case False
    with Cons.prems obtain us1 where
      a: "for_each_unit (spot_target (snd (us ! i))) us = Inr us1" and b: "spot_loop is us1 = Inr us'"
      by (auto simp: Let_def bindE_Inr_iff)
    have "units_rel spot_frame us us1"
      using for_each_unit_rel[OF a] by (rule units_rel_mono) (rule spot_target_frame)
    moreover have "units_rel spot_frame us1 us'" using b by (rule Cons.IH)
    ultimately show ?thesis by (rule units_rel_trans) (rule spot_frame_trans)
  qed
qed

lemma update_spotting_frame:
  assumes "update_spotting us = Inr (ev, us')"
  shows "ev = [] \<and> units_rel spot_frame us us'"
proof -
  let ?c = "map (\<lambda>(k, u). (k, u\<lparr> spotted_by := {} \<rparr>)) us"
  from assms have l: "spot_loop [0..<length ?c] ?c = Inr us'" and e: "ev = []"
    by (auto simp: update_spotting_def Let_def bindE_Inr_iff)
  have "units_rel spot_frame us ?c"
    by (induction us) (auto simp: spot_frame_def)
  moreover have "units_rel spot_frame ?c us'" using l by (rule spot_loop_frame)
  ultimately have "units_rel spot_frame us us'" by (rule units_rel_trans) (rule spot_frame_trans)
  with e show ?thesis by simp
qed

subsection \<open>Targeting\<close>

lemma can_fire_at_ammo: "can_fire_at a t ct = Inr True \<Longrightarrow> 0 < ammo a"
  by (auto simp: can_fire_at_def Let_def bindE_Inr_iff split: if_splits)

text \<open>What the inner loop returns is its starting value or an opposing, living unit of the
  list that the shooter can fire at.\<close>

lemma best_target_loop_sound:
  assumes "best_target_loop ts u cands best = Inr (Some (t_id, d))"
  shows "best = Some (t_id, d)
     \<or> (\<exists>t. (t_id, t) \<in> set cands \<and> side u \<noteq> side t \<and> 0 < hp t
             \<and> can_fire_at u t (real_of_int ts) = Inr True
             \<and> d = distance_2d (pos u) (pos t))"
  using assms
proof (induction cands arbitrary: best)
  case Nil
  then show ?case by simp
next
  case (Cons c cands)
  obtain k t where c: "c = (k, t)" by (cases c)
  show ?case
  proof (cases "side u = side t \<or> hp t \<le> 0")
    case True
    with Cons.prems c have "best_target_loop ts u cands best = Inr (Some (t_id, d))" by simp
    from Cons.IH[OF this] show ?thesis by auto
  next
    case False
    with Cons.prems c obtain ok where ok: "can_fire_at u t (real_of_int ts) = Inr ok"
      and rest: "(if ok then
          (let dist_m = distance_2d (pos u) (pos t) in
           if (case best of None \<Rightarrow> True | Some (b, best_dist) \<Rightarrow> dist_m < best_dist)
           then best_target_loop ts u cands (Some (k, dist_m))
           else best_target_loop ts u cands best)
        else best_target_loop ts u cands best) = Inr (Some (t_id, d))"
      by (auto simp: bindE_Inr_iff)
    show ?thesis
    proof (cases "ok \<and> (case best of None \<Rightarrow> True | Some (b, best_dist) \<Rightarrow> distance_2d (pos u) (pos t) < best_dist)")
      case True
      with rest have "best_target_loop ts u cands (Some (k, distance_2d (pos u) (pos t)))
                        = Inr (Some (t_id, d))" by (simp add: Let_def)
      from Cons.IH[OF this] show ?thesis
        using False True ok c by auto
    next
      case nb: False
      with rest have "best_target_loop ts u cands best = Inr (Some (t_id, d))"
        by (auto simp: Let_def split: if_splits)
      from Cons.IH[OF this] show ?thesis by auto
    qed
  qed
qed

text \<open>Every selected pair has a shooter that is a non-routed unit with ammo, and a target that
  is a living unit of the other side the shooter can fire at.\<close>

lemma find_targets_loop_sound:
  assumes "find_targets_loop ts us todo = Inr targets" and "(sk, tk) \<in> set targets"
  shows "\<exists>s t. (sk, s) \<in> set todo \<and> \<not> routed s \<and> 0 < ammo s
              \<and> (tk, t) \<in> set us \<and> side s \<noteq> side t \<and> 0 < hp t
              \<and> can_fire_at s t (real_of_int ts) = Inr True"
  using assms
proof (induction todo arbitrary: targets)
  case Nil
  then show ?case by simp
next
  case (Cons c todo)
  obtain k u where c: "c = (k, u)" by (cases c)
  show ?case
  proof (cases "routed u")
    case True
    with Cons.prems c have "find_targets_loop ts us todo = Inr targets" by simp
    from Cons.IH[OF this Cons.prems(2)] show ?thesis by auto
  next
    case False
    from Cons.prems(1) c False have
      "bindE (best_target_loop ts u us None) (\<lambda>best.
           bindE (find_targets_loop ts us todo) (\<lambda>targets.
             case best of
               None \<Rightarrow> Inr targets
             | Some (t_id, d) \<Rightarrow> if t_id \<noteq> [] then Inr ((k, t_id) # targets)
                                 else Inr targets)) = Inr targets"
      by simp
    then obtain best rest where
      b: "best_target_loop ts u us None = Inr best" and
      r: "find_targets_loop ts us todo = Inr rest" and
      t: "(case best of
               None \<Rightarrow> Inr rest
             | Some (t_id, d) \<Rightarrow> if t_id \<noteq> [] then Inr ((k, t_id) # rest)
                                 else Inr rest) = (Inr targets :: error + (string \<times> string) list)"
      unfolding bindE_Inr_iff by blast
    show ?thesis
    proof (cases "(sk, tk) \<in> set rest")
      case True
      from Cons.IH[OF r True] show ?thesis by auto
    next
      case nr: False
      with t Cons.prems(2) obtain d where bd: "best = Some (tk, d)" and k: "sk = k"
        by (auto split: option.splits prod.splits if_splits)
      from best_target_loop_sound[OF b[unfolded bd]]
      obtain t where "(tk, t) \<in> set us" "side u \<noteq> side t" "0 < hp t"
        "can_fire_at u t (real_of_int ts) = Inr True" by auto
      with False k c can_fire_at_ammo[of u t "real_of_int ts"] show ?thesis by auto
    qed
  qed
qed

lemma find_targets_loop_keys:
  "find_targets_loop ts us todo = Inr targets \<Longrightarrow> distinct (map fst todo) \<Longrightarrow>
     distinct (map fst targets) \<and> set (map fst targets) \<subseteq> set (map fst todo)"
proof (induction todo arbitrary: targets)
  case Nil
  then show ?case by auto
next
  case (Cons c todo)
  obtain k u where c: "c = (k, u)" by (cases c)
  from Cons.prems(2) c have d: "distinct (map fst todo)" and nk: "k \<notin> set (map fst todo)"
    by auto
  show ?case
  proof (cases "routed u")
    case True
    with Cons.prems c have "find_targets_loop ts us todo = Inr targets" by simp
    from Cons.IH[OF this d] show ?thesis by (auto simp: c)
  next
    case False
    from Cons.prems(1) c False have
      "bindE (best_target_loop ts u us None) (\<lambda>best.
           bindE (find_targets_loop ts us todo) (\<lambda>targets.
             case best of
               None \<Rightarrow> Inr targets
             | Some (t_id, d) \<Rightarrow> if t_id \<noteq> [] then Inr ((k, t_id) # targets)
                                 else Inr targets)) = Inr targets"
      by simp
    then obtain best rest where
      r: "find_targets_loop ts us todo = Inr rest" and
      t: "(case best :: (string \<times> real) option of
               None \<Rightarrow> Inr rest
             | Some (t_id, d) \<Rightarrow> if t_id \<noteq> [] then Inr ((k, t_id) # rest)
                                 else Inr rest) = (Inr targets :: error + (string \<times> string) list)"
      unfolding bindE_Inr_iff by blast
    from t have "targets = rest \<or> (\<exists>t_id. targets = (k, t_id) # rest)"
      by (auto split: option.splits if_splits)
    with Cons.IH[OF r d] nk show ?thesis
      unfolding c by (fastforce simp: subset_iff image_iff)
  qed
qed

lemma find_targets_distinct:
  "distinct (map fst us) \<Longrightarrow> find_targets ts us = Inr targets \<Longrightarrow> distinct (map fst targets)"
  unfolding find_targets_def
  using find_targets_loop_keys by blast

subsection \<open>Combat\<close>

lemma combat_pair_shape:
  assumes "combat_pair ts (sk, tk) us r = Inr (ev, us', r')"
  shows "(ev = [] \<and> us' = us \<and> r' = r)
    \<or> (\<exists>s t shot rest. units_get us sk = Some s \<and> units_get us tk = Some t
          \<and> \<not> routed s \<and> 0 < hp t
          \<and> ev = shot # rest \<and> shot_by (uid s) shot
          \<and> (\<forall>x \<in> set rest. ev_kind x = ''Damage'' \<or> ev_kind x = ''Destroyed'')
          \<and> r' = r\<lparr> gen := stl (gen r) \<rparr>
          \<and> (us' = units_upd us sk (fire_upd ts)
               \<or> (\<exists>dmg s_type. get_type s = Inr s_type
                     \<and> calculate_damage s t (damage s_type) = Inr dmg
                     \<and> us' = units_upd (units_upd us sk (fire_upd ts)) tk
                                (\<lambda>t. t\<lparr> hp := hp t - dmg \<rparr>))))"
proof (cases "units_get us sk")
  case None
  with assms show ?thesis by (simp add: combat_pair_def)
next
  case s: (Some s)
  show ?thesis
  proof (cases "units_get us tk")
    case None
    with assms s show ?thesis by (simp add: combat_pair_def)
  next
    case t: (Some t)
    show ?thesis
    proof (cases "routed s \<or> hp t \<le> 0")
      case True
      with assms s t show ?thesis by (auto simp: combat_pair_def)
    next
      case False
      have f: "(\<lambda>s. s\<lparr> ammo := ammo s - 1, last_fire_time := real_of_int ts \<rparr>) = fire_upd ts"
        by (simp add: fire_upd_def fun_eq_iff)
      from assms s t False show ?thesis
        unfolding combat_pair_def
        by (auto simp: Let_def bindE_Inr_iff bernoulli_def shot_by_def mk_Event_def f
               split: if_splits)
    qed
  qed
qed

lemma wf_units_rel:
  assumes "units_rel P us us'" and "\<And>u u'. P u u' \<Longrightarrow> uid u' = uid u" and "wf_units us"
  shows "wf_units us'"
proof -
  have "map (\<lambda>a. uid (snd a)) us' = map (\<lambda>a. uid (snd a)) us"
    using assms(1,2)
    by (induction us arbitrary: us') (auto simp: units_rel_def list_all2_Cons1)
  with assms(3) units_rel_keys[OF assms(1)] show ?thesis by (simp add: wf_units_def)
qed

lemma wf_units_key_uid:
  assumes "wf_units us" and "units_get us k = Some s" and "i < length us"
  shows "fst (us ! i) = k \<longleftrightarrow> uid (snd (us ! i)) = uid s"
proof -
  from assms(2) have "(k, s) \<in> set us" by (rule units_get_mem)
  then obtain j where j: "j < length us" "us ! j = (k, s)" by (auto simp: in_set_conv_nth)
  have d1: "distinct (map fst us)" and d2: "distinct (map (\<lambda>a. uid (snd a)) us)"
    using assms(1) by (simp_all add: wf_units_def)
  show ?thesis
  proof
    assume "fst (us ! i) = k"
    then have "map fst us ! i = map fst us ! j" using j assms(3) by simp
    with nth_eq_iff_index_eq[OF d1, of i j] j(1) assms(3) have "i = j" by simp
    with j show "uid (snd (us ! i)) = uid s" by simp
  next
    assume "uid (snd (us ! i)) = uid s"
    then have "map (\<lambda>a. uid (snd a)) us ! i = map (\<lambda>a. uid (snd a)) us ! j"
      using j assms(3) by simp
    with nth_eq_iff_index_eq[OF d2, of i j] j(1) assms(3) have "i = j" by simp
    with j show "fst (us ! i) = k" by simp
  qed
qed

lemma units_upd_all:
  "(\<And>v. P v v) \<Longrightarrow> (\<And>v. P v (f v)) \<Longrightarrow> units_rel P us (units_upd us k f)"
  by (induction us) (auto simp: units_upd_def)

lemma combat_frame_trans: "combat_frame u v \<Longrightarrow> combat_frame v w \<Longrightarrow> combat_frame u w"
  unfolding combat_frame_def by (cases u, cases v, cases w) auto

lemma combat_frame_refl: "combat_frame u u"
  by (simp add: combat_frame_def)

lemma combat_pair_kinds:
  assumes "combat_pair ts pair us r = Inr (ev, us', r')"
  shows "\<forall>x \<in> set ev. ev_kind x = ''ShotFired'' \<or> ev_kind x = ''Damage'' \<or> ev_kind x = ''Destroyed''"
proof -
  obtain sk tk where p: "pair = (sk, tk)" by (cases pair)
  from combat_pair_shape[OF assms[unfolded p]] show ?thesis
    by (auto simp: shot_by_def)
qed

lemma combat_pair_frame:
  assumes "distinct (map fst us)" and "combat_pair ts pair us r = Inr (ev, us', r')"
  shows "units_rel combat_frame us us'"
proof -
  obtain sk tk where p: "pair = (sk, tk)" by (cases pair)
  from combat_pair_shape[OF assms(2)[unfolded p]]
  show ?thesis
  proof (elim disjE exE conjE)
    assume "us' = us"
    then show ?thesis by (simp add: units_rel_refl combat_frame_refl)
  next
    fix s t shot rest
    assume s: "units_get us sk = Some s" and nr: "\<not> routed s"
      and u: "us' = units_upd us sk (fire_upd ts)"
    have "combat_frame s (fire_upd ts s)"
      using nr by (simp add: combat_frame_def fire_upd_def)
    then show ?thesis unfolding u
      using assms(1) s by (intro units_upd_one) (simp_all add: combat_frame_refl)
  next
    fix s t shot rest dmg s_type
    assume s: "units_get us sk = Some s" and nr: "\<not> routed s"
      and u: "us' = units_upd (units_upd us sk (fire_upd ts)) tk (\<lambda>t. t\<lparr> hp := hp t - dmg \<rparr>)"
    have "combat_frame s (fire_upd ts s)"
      using nr by (simp add: combat_frame_def fire_upd_def)
    then have 1: "units_rel combat_frame us (units_upd us sk (fire_upd ts))"
      using assms(1) s by (intro units_upd_one) (simp_all add: combat_frame_refl)
    have 2: "units_rel combat_frame (units_upd us sk (fire_upd ts)) us'"
      unfolding u by (rule units_upd_all) (simp_all add: combat_frame_def)
    from 1 2 show ?thesis by (rule units_rel_trans) (rule combat_frame_trans)
  qed
qed

lemma combat_loop_kinds:
  "combat_loop ts pairs us r = Inr (ev, us', r') \<Longrightarrow>
     \<forall>x \<in> set ev. ev_kind x = ''ShotFired'' \<or> ev_kind x = ''Damage'' \<or> ev_kind x = ''Destroyed''"
proof (induction pairs arbitrary: us r ev)
  case Nil
  then show ?case by simp
next
  case (Cons p pairs)
  from Cons.prems obtain ev1 us1 r1 evs where
    a: "combat_pair ts p us r = Inr (ev1, us1, r1)" and
    b: "combat_loop ts pairs us1 r1 = Inr (evs, us', r')" and e: "ev = ev1 @ evs"
    by (auto simp: bindE_Inr_iff)
  from combat_pair_kinds[OF a] Cons.IH[OF b] show ?case unfolding e by auto
qed

lemma combat_loop_frame:
  "distinct (map fst us) \<Longrightarrow> combat_loop ts pairs us r = Inr (ev, us', r') \<Longrightarrow>
     units_rel combat_frame us us'"
proof (induction pairs arbitrary: us r ev)
  case Nil
  then show ?case by (simp add: units_rel_refl combat_frame_refl)
next
  case (Cons p pairs)
  from Cons.prems(2) obtain ev1 us1 r1 evs where
    a: "combat_pair ts p us r = Inr (ev1, us1, r1)" and
    b: "combat_loop ts pairs us1 r1 = Inr (evs, us', r')"
    by (auto simp: bindE_Inr_iff)
  have 1: "units_rel combat_frame us us1" using Cons.prems(1) a by (rule combat_pair_frame)
  then have "distinct (map fst us1)" using Cons.prems(1) by (simp add: units_rel_keys)
  then have "units_rel combat_frame us1 us'" using b by (rule Cons.IH)
  with 1 show ?case by (rule units_rel_trans) (rule combat_frame_trans)
qed

subsection \<open>Morale\<close>

lemma morale_unit_frame: "morale_unit ts u r = Inr (ev, u', r') \<Longrightarrow> morale_frame u u'"
  by (auto simp: morale_unit_def morale_frame_def Let_def bindE_Inr_iff bernoulli_def
      split: if_splits)

lemma morale_unit_kinds:
  "morale_unit ts u r = Inr (ev, u', r') \<Longrightarrow> \<forall>x \<in> set ev. ev_kind x = ''Routed''"
  by (auto simp: morale_unit_def Let_def bindE_Inr_iff bernoulli_def mk_Event_def
      split: if_splits)

lemma morale_loop_frame:
  "morale_loop ts us r = Inr (ev, us', r') \<Longrightarrow> units_rel morale_frame us us'"
proof (induction us arbitrary: r ev us' r')
  case Nil
  then show ?case by simp
next
  case (Cons c us)
  obtain k u where c: "c = (k, u)" by (cases c)
  from Cons.prems obtain ev1 u1 r1 evs rest r2 where
    a: "morale_unit ts u r = Inr (ev1, u1, r1)" and
    b: "morale_loop ts us r1 = Inr (evs, rest, r2)" and e: "us' = (k, u1) # rest"
    unfolding c by (auto simp: bindE_Inr_iff)
  from morale_unit_frame[OF a] Cons.IH[OF b] show ?case unfolding e c by simp
qed

lemma morale_loop_kinds:
  "morale_loop ts us r = Inr (ev, us', r') \<Longrightarrow> \<forall>x \<in> set ev. ev_kind x = ''Routed''"
proof (induction us arbitrary: r ev us' r')
  case Nil
  then show ?case by simp
next
  case (Cons c us)
  obtain k u where c: "c = (k, u)" by (cases c)
  from Cons.prems obtain ev1 u1 r1 evs rest r2 where
    a: "morale_unit ts u r = Inr (ev1, u1, r1)" and
    b: "morale_loop ts us r1 = Inr (evs, rest, r2)" and e: "ev = ev1 @ evs"
    unfolding c by (auto simp: bindE_Inr_iff)
  from morale_unit_kinds[OF a] Cons.IH[OF b] show ?case unfolding e by auto
qed

subsection \<open>The phases of a step\<close>

lemma step_phases:
  assumes "step e dt_ms = Inr (evts, e')"
  shows "\<exists>ev1 e1 ev2 us2 ev3 us3 targets ev5 us5 r5 ev6 us6 r6.
      apply_orders_now e = (ev1, e1)
      \<and> move dt_ms (units (state e1)) = Inr (ev2, us2)
      \<and> update_spotting us2 = Inr (ev3, us3)
      \<and> find_targets (ts_ms (state e1)) us3 = Inr targets
      \<and> combat dt_ms (ts_ms (state e1)) targets us3 (rng e1) = Inr (ev5, us5, r5)
      \<and> morale (ts_ms (state e1)) us5 r5 = Inr (ev6, us6, r6)
      \<and> evts = ev1 @ ev2 @ ev3 @ ev5 @ ev6
      \<and> e' = e1\<lparr> state := (state e1)\<lparr> units := us6, ts_ms := ts_ms (state e1) + dt_ms \<rparr>,
                  rng := r6 \<rparr>"
  using assms unfolding step_def
  by (auto simp: Let_def bindE_Inr_iff split: prod.splits)

subsection \<open>What the frames keep\<close>

lemma order_frame_fields:
  assumes "order_frame u u'"
  shows "uid u' = uid u" "side u' = side u" "unit_type_id u' = unit_type_id u" "pos u' = pos u"
    "hp u' = hp u" "ammo u' = ammo u" "routed u' = routed u"
    "last_fire_time u' = last_fire_time u" "spotted_by u' = spotted_by u"
  using assms unfolding order_frame_def by (cases u, cases u', simp)+

lemma move_frame_fields:
  assumes "move_frame u u'"
  shows "uid u' = uid u" "side u' = side u" "unit_type_id u' = unit_type_id u"
    "hp u' = hp u" "ammo u' = ammo u" "routed u' = routed u"
    "last_fire_time u' = last_fire_time u" "spotted_by u' = spotted_by u"
    "target_id u' = target_id u" "intent_target_pos u' = intent_target_pos u"
  using assms unfolding move_frame_def by (cases u, cases u', simp)+

lemma spot_frame_fields:
  assumes "spot_frame u u'"
  shows "uid u' = uid u" "side u' = side u" "unit_type_id u' = unit_type_id u" "pos u' = pos u"
    "hp u' = hp u" "ammo u' = ammo u" "routed u' = routed u"
    "last_fire_time u' = last_fire_time u"
    "target_id u' = target_id u" "intent_target_pos u' = intent_target_pos u"
  using assms unfolding spot_frame_def by (cases u, cases u', simp)+

lemma combat_frame_fields:
  assumes "combat_frame u u'"
  shows "uid u' = uid u" "side u' = side u" "unit_type_id u' = unit_type_id u" "pos u' = pos u"
    "routed u' = routed u" "spotted_by u' = spotted_by u"
    "target_id u' = target_id u" "intent_target_pos u' = intent_target_pos u"
  using assms unfolding combat_frame_def by (cases u, cases u', simp)+

lemma morale_frame_fields:
  assumes "morale_frame u u'"
  shows "uid u' = uid u" "side u' = side u" "unit_type_id u' = unit_type_id u" "pos u' = pos u"
    "hp u' = hp u" "ammo u' = ammo u"
    "last_fire_time u' = last_fire_time u" "spotted_by u' = spotted_by u"
    "target_id u' = target_id u" "intent_target_pos u' = intent_target_pos u"
  using assms unfolding morale_frame_def by (cases u, cases u', simp)+

subsection \<open>Ammo and shots\<close>

lemma shot_by_unique: "shot_by a x \<Longrightarrow> shot_by b x \<longleftrightarrow> b = a"
  by (auto simp: shot_by_def)

lemma combat_pair_ammo:
  assumes wf: "wf_units us" and cp: "combat_pair ts (sk, tk) us r = Inr (ev, us', r')"
    and i: "i < length us"
  shows "ammo (snd (us' ! i))
           = ammo (snd (us ! i)) - int (length (filter (shot_by (uid (snd (us ! i)))) ev))
         \<and> length (filter (shot_by (uid (snd (us ! i)))) ev) \<le> (if fst (us ! i) = sk then 1 else 0)"
proof -
  have main: ?thesis
    if s: "units_get us sk = Some s" and ev: "ev = shot # rest" and sb: "shot_by (uid s) shot"
      and rk: "\<forall>x \<in> set rest. ev_kind x = ''Damage'' \<or> ev_kind x = ''Destroyed''"
      and am: "ammo (snd (us' ! i)) = (if fst (us ! i) = sk then ammo (snd (us ! i)) - 1
                                      else ammo (snd (us ! i)))"
    for s shot rest
  proof -
    have fr: "filter (shot_by x) rest = []" for x
      using rk by (auto simp: filter_empty_conv shot_by_def)
    have key: "fst (us ! i) = sk \<longleftrightarrow> uid (snd (us ! i)) = uid s"
      using wf s i by (rule wf_units_key_uid)
    have cnt: "length (filter (shot_by (uid (snd (us ! i)))) ev) = (if fst (us ! i) = sk then 1 else 0)"
      unfolding ev using shot_by_unique[OF sb, of "uid (snd (us ! i))"] key by (simp add: fr)
    from cnt am show ?thesis by simp
  qed
  from combat_pair_shape[OF cp]
  show ?thesis
  proof (elim disjE exE conjE)
    assume "ev = []" "us' = us"
    then show ?thesis by simp
  next
    fix s t shot rest
    assume s: "units_get us sk = Some s" and ev: "ev = shot # rest" and sb: "shot_by (uid s) shot"
      and rk: "\<forall>x \<in> set rest. ev_kind x = ''Damage'' \<or> ev_kind x = ''Destroyed''"
      and u: "us' = units_upd us sk (fire_upd ts)"
    have "ammo (snd (us' ! i)) = (if fst (us ! i) = sk then ammo (snd (us ! i)) - 1
                                      else ammo (snd (us ! i)))"
      using u i by (simp add: units_upd_nth fire_upd_def)
    with s ev sb rk show ?thesis by (rule main)
  next
    fix s t shot rest dmg s_type
    assume s: "units_get us sk = Some s" and ev: "ev = shot # rest" and sb: "shot_by (uid s) shot"
      and rk: "\<forall>x \<in> set rest. ev_kind x = ''Damage'' \<or> ev_kind x = ''Destroyed''"
      and u: "us' = units_upd (units_upd us sk (fire_upd ts)) tk (\<lambda>t. t\<lparr> hp := hp t - dmg \<rparr>)"
    have "ammo (snd (us' ! i)) = (if fst (us ! i) = sk then ammo (snd (us ! i)) - 1
                                      else ammo (snd (us ! i)))"
      using u i by (simp add: units_upd_nth fire_upd_def)
    with s ev sb rk show ?thesis by (rule main)
  qed
qed

lemma combat_loop_ammo:
  assumes "wf_units us" and "distinct (map fst pairs)"
    and "combat_loop ts pairs us r = Inr (ev, us', r')" and "i < length us"
  shows "ammo (snd (us' ! i))
           = ammo (snd (us ! i)) - int (length (filter (shot_by (uid (snd (us ! i)))) ev))
         \<and> length (filter (shot_by (uid (snd (us ! i)))) ev)
              \<le> (if fst (us ! i) \<in> set (map fst pairs) then 1 else 0)"
  using assms
proof (induction pairs arbitrary: us r ev)
  case Nil
  then show ?case by simp
next
  case (Cons p pairs)
  obtain sk tk where p: "p = (sk, tk)" by (cases p)
  from Cons.prems(3) obtain ev1 us1 r1 evs where
    a: "combat_pair ts (sk, tk) us r = Inr (ev1, us1, r1)" and
    b: "combat_loop ts pairs us1 r1 = Inr (evs, us', r')" and e: "ev = ev1 @ evs"
    unfolding p by (auto simp: bindE_Inr_iff)
  have d: "distinct (map fst us)" using Cons.prems(1) by (simp add: wf_units_def)
  have f: "units_rel combat_frame us us1" using d a by (rule combat_pair_frame)
  have wf1: "wf_units us1"
    using f _ Cons.prems(1) by (rule wf_units_rel) (simp add: combat_frame_fields)
  have i1: "i < length us1" using f Cons.prems(4) by (simp add: units_rel_length)
  have same: "fst (us1 ! i) = fst (us ! i)" "uid (snd (us1 ! i)) = uid (snd (us ! i))"
    using units_rel_nth[OF f Cons.prems(4)] by (simp_all add: combat_frame_fields)
  from Cons.prems(2) have dp: "distinct (map fst pairs)" and nk: "sk \<notin> set (map fst pairs)"
    unfolding p by simp_all
  note h1 = combat_pair_ammo[OF Cons.prems(1) a Cons.prems(4)]
  note h2 = Cons.IH[OF wf1 dp b i1, unfolded same]
  from h1 h2 nk show ?case unfolding e p by (auto split: if_splits)
qed

subsection \<open>The phases of a step, unit by unit\<close>





text \<open>Everything a successful step went through.\<close>

lemma step_trace:
  assumes "step e dt_ms = Inr (evts, e')" and "distinct (map fst (units (state e)))"
  shows "\<exists>ev1 e1 us2 us3 targets ev5 us5 r5 ev6 r6.
      apply_orders_now e = (ev1, e1)
      \<and> for_each_unit (move_unit dt_ms) (units (state e1)) = Inr us2
      \<and> update_spotting us2 = Inr ([], us3)
      \<and> find_targets (ts_ms (state e)) us3 = Inr targets
      \<and> combat_loop (ts_ms (state e)) targets us3 (rng e) = Inr (ev5, us5, r5)
      \<and> morale_loop (ts_ms (state e)) us5 r5 = Inr (ev6, units (state e'), r6)
      \<and> evts = ev1 @ ev5 @ ev6
      \<and> ts_ms (state e') = ts_ms (state e) + dt_ms \<and> rng e' = r6
      \<and> pending_orders e' = [] \<and> battle_id (state e') = battle_id (state e)
      \<and> units_rel order_frame (units (state e)) (units (state e1))
      \<and> units_rel move_frame (units (state e1)) us2
      \<and> units_rel spot_frame us2 us3
      \<and> units_rel combat_frame us3 us5
      \<and> units_rel morale_frame us5 (units (state e'))
      \<and> (\<forall>x \<in> set ev1. ev_kind x = ''OrderAccepted'')
      \<and> (\<forall>x \<in> set ev5. combat_kind (ev_kind x))
      \<and> (\<forall>x \<in> set ev6. ev_kind x = ''Routed'')"
proof -
  from step_phases[OF assms(1)] obtain ev1 e1 ev2 us2 ev3 us3 targets ev5 us5 r5 ev6 us6 r6 where
    p1: "apply_orders_now e = (ev1, e1)"
    and p2: "move dt_ms (units (state e1)) = Inr (ev2, us2)"
    and p3: "update_spotting us2 = Inr (ev3, us3)"
    and p4: "find_targets (ts_ms (state e1)) us3 = Inr targets"
    and p5: "combat dt_ms (ts_ms (state e1)) targets us3 (rng e1) = Inr (ev5, us5, r5)"
    and p6: "morale (ts_ms (state e1)) us5 r5 = Inr (ev6, us6, r6)"
    and ev: "evts = ev1 @ ev2 @ ev3 @ ev5 @ ev6"
    and e': "e' = e1\<lparr> state := (state e1)\<lparr> units := us6, ts_ms := ts_ms (state e1) + dt_ms \<rparr>,
                  rng := r6 \<rparr>"
    by blast
  note f = apply_orders_now_facts[OF p1]
  have e2: "ev2 = []" and m: "for_each_unit (move_unit dt_ms) (units (state e1)) = Inr us2"
    using move_events[OF p2] by simp_all
  have e3: "ev3 = []" and r3: "units_rel spot_frame us2 us3"
    using update_spotting_frame[OF p3] by simp_all
  have q3: "update_spotting us2 = Inr ([], us3)" using p3 e3 by simp
  have q4: "find_targets (ts_ms (state e)) us3 = Inr targets" using p4 f(2) by simp
  have q5: "combat_loop (ts_ms (state e)) targets us3 (rng e) = Inr (ev5, us5, r5)"
    using p5 f(2,3) by (simp add: combat_def)
  have q6: "morale_loop (ts_ms (state e)) us5 r5 = Inr (ev6, units (state e'), r6)"
    using p6 f(2) by (simp add: morale_def e')
  have q7: "evts = ev1 @ ev5 @ ev6" by (simp add: ev e2 e3)
  have q8: "ts_ms (state e') = ts_ms (state e) + dt_ms" "rng e' = r6" "pending_orders e' = []"
    "battle_id (state e') = battle_id (state e)"
    using f by (simp_all add: e')
  have r1: "units_rel order_frame (units (state e)) (units (state e1))"
    using assms(2) f(1) by (rule apply_orders_loop_frame)
  have r2: "units_rel move_frame (units (state e1)) us2"
    using p2 by (rule move_frame_rel)
  have "map fst us3 = map fst (units (state e))"
    using r1 r2 r3 by (simp add: units_rel_keys)
  then have "distinct (map fst us3)" using assms(2) by simp
  then have r5: "units_rel combat_frame us3 us5"
    using q5 by (rule combat_loop_frame)
  have r6: "units_rel morale_frame us5 (units (state e'))"
    using q6 by (rule morale_loop_frame)
  have k1: "\<forall>x \<in> set ev1. ev_kind x = ''OrderAccepted''"
    using f(1) by (rule apply_orders_loop_kinds)
  have k5: "\<forall>x \<in> set ev5. combat_kind (ev_kind x)"
    using combat_loop_kinds[OF q5] by (simp add: combat_kind_def)
  have k6: "\<forall>x \<in> set ev6. ev_kind x = ''Routed''"
    using q6 by (rule morale_loop_kinds)
  from p1 m q3 q4 q5 q6 q7 q8 r1 r2 r3 r5 r6 k1 k5 k6 show ?thesis by blast
qed

subsection \<open>Who spots whom\<close>

lemma get_type_spot_frame: "spot_frame u u' \<Longrightarrow> get_type u' = get_type u"
  unfolding get_type_def by (simp only: spot_frame_fields)

lemma can_detect_spot_frame:
  "spot_frame d d' \<Longrightarrow> spot_frame t t' \<Longrightarrow> can_detect d' t' = can_detect d t"
  unfolding can_detect_def by (simp only: get_type_spot_frame spot_frame_fields)

lemma spots_spot_frame:
  "spot_frame d d' \<Longrightarrow> spot_frame t t' \<Longrightarrow> spots d' t' = spots d t"
  by (simp add: spots_def can_detect_spot_frame spot_frame_fields)

lemma spot_target_spotted:
  assumes "spot_target d t = Inr t'" and "\<not> routed d"
  shows "spotted_by t' = spotted_by t \<union> spots d t"
proof (cases "side d \<noteq> side t")
  case False
  with assms show ?thesis by (simp add: spot_target_def spots_def)
next
  case True
  with assms(1) obtain seen where c: "can_detect d t = Inr seen"
    and t': "t' = (if seen then t\<lparr> spotted_by := insert (uid d) (spotted_by t) \<rparr> else t)"
    by (auto simp: spot_target_def bindE_Inr_iff split: if_splits)
  show ?thesis
    using True assms(2) c unfolding t' spots_def by (cases seen) simp_all
qed

lemma spot_loop_spotted:
  assumes "spot_loop is us = Inr us'" and "j < length us" and "\<forall>k \<in> set is. k < length us"
  shows "spotted_by (snd (us' ! j))
           = spotted_by (snd (us ! j)) \<union> (\<Union>k \<in> set is. spots (snd (us ! k)) (snd (us ! j)))"
  using assms
proof (induction "is" arbitrary: us)
  case Nil
  then show ?case by simp
next
  case (Cons i "is")
  show ?case
  proof (cases "routed (snd (us ! i))")
    case True
    with Cons.prems have "spot_loop is us = Inr us'" by (simp add: Let_def)
    from Cons.IH[OF this Cons.prems(2)] Cons.prems(3) True show ?thesis by (simp add: spots_def)
  next
    case False
    with Cons.prems obtain us1 where
      a: "for_each_unit (spot_target (snd (us ! i))) us = Inr us1" and b: "spot_loop is us1 = Inr us'"
      by (auto simp: Let_def bindE_Inr_iff)
    note r = for_each_unit_rel[OF a]
    have fr: "units_rel spot_frame us us1"
      using r by (rule units_rel_mono) (rule spot_target_frame)
    have j1: "j < length us1" using fr Cons.prems(2) by (simp add: units_rel_length)
    have sj: "spotted_by (snd (us1 ! j))
                = spotted_by (snd (us ! j)) \<union> spots (snd (us ! i)) (snd (us ! j))"
      using units_rel_nth[OF r Cons.prems(2)] False by (simp add: spot_target_spotted)
    have fj: "spot_frame (snd (us ! j)) (snd (us1 ! j))"
      using units_rel_nth[OF fr Cons.prems(2)] by simp
    have same: "spots (snd (us1 ! k)) (snd (us1 ! j)) = spots (snd (us ! k)) (snd (us ! j))"
      if "k < length us" for k
      using units_rel_nth[OF fr that] fj by (simp add: spots_spot_frame)
    have rest: "\<forall>k \<in> set is. k < length us1"
      using Cons.prems(3) units_rel_length[OF fr] by simp
    have "(\<Union>k \<in> set is. spots (snd (us1 ! k)) (snd (us1 ! j)))
            = (\<Union>k \<in> set is. spots (snd (us ! k)) (snd (us ! j)))"
      using Cons.prems(3) same by auto
    with Cons.IH[OF b j1 rest] show ?thesis
      unfolding sj by auto
  qed
qed

lemma update_spotting_spotted:
  assumes "update_spotting us = Inr (ev, us')" and "j < length us"
  shows "spotted_by (snd (us' ! j)) = (\<Union>k < length us. spots (snd (us ! k)) (snd (us ! j)))"
proof -
  let ?c = "map (\<lambda>(k, u). (k, u\<lparr> spotted_by := {} \<rparr>)) us"
  from assms have l: "spot_loop [0..<length ?c] ?c = Inr us'"
    by (auto simp: update_spotting_def Let_def bindE_Inr_iff)
  have fr: "spot_frame (snd (us ! k)) (snd (?c ! k))" if "k < length us" for k
    using that by (simp add: spot_frame_def split: prod.splits)
  have c: "spots (snd (?c ! k)) (snd (?c ! j)) = spots (snd (us ! k)) (snd (us ! j))"
    if "k < length us" for k
    using fr[OF that] fr[OF assms(2)] by (rule spots_spot_frame)
  have e: "spotted_by (snd (?c ! j)) = {}"
    using assms(2) by (simp split: prod.splits)
  have "spotted_by (snd (us' ! j))
          = spotted_by (snd (?c ! j)) \<union> (\<Union>k \<in> set [0..<length ?c]. spots (snd (?c ! k)) (snd (?c ! j)))"
    using l by (rule spot_loop_spotted) (use assms(2) in simp_all)
  also have "\<dots> = (\<Union>k < length us. spots (snd (us ! k)) (snd (us ! j)))"
    unfolding e using c by (auto simp del: nth_map)
  finally show ?thesis .
qed

subsection \<open>Routed units\<close>

lemma apply_order_event_unit:
  assumes "apply_order ts ord us = (ev, us')" and "x \<in> set ev"
  shows "\<exists>u0. units_get us (unit_id ord) = Some u0 \<and> \<not> routed u0
              \<and> (\<forall>a. order_accepted_for a x \<longrightarrow> a = uid u0)"
  using assms
  by (auto simp: apply_order_def order_accepted_for_def mk_Event_def
      split: option.splits if_splits)

lemma apply_order_routed_events:
  assumes wf: "wf_units us" and ao: "apply_order ts ord us = (ev, us')"
    and i: "i < length us" and r: "routed (snd (us ! i))"
  shows "\<forall>x \<in> set ev. \<not> order_accepted_for (uid (snd (us ! i))) x"
proof
  fix x assume x: "x \<in> set ev"
  from apply_order_event_unit[OF ao x] obtain u0 where
    u0: "units_get us (unit_id ord) = Some u0" "\<not> routed u0"
    and a: "\<forall>a. order_accepted_for a x \<longrightarrow> a = uid u0" by blast
  show "\<not> order_accepted_for (uid (snd (us ! i))) x"
  proof
    assume "order_accepted_for (uid (snd (us ! i))) x"
    with a have "uid (snd (us ! i)) = uid u0" by simp
    with wf_units_key_uid[OF wf u0(1) i] have k: "fst (us ! i) = unit_id ord" by simp
    have "distinct (map fst us)" using wf by (simp add: wf_units_def)
    from units_get_nth[OF this i] k u0(1) have "snd (us ! i) = u0" by simp
    with r u0(2) show False by simp
  qed
qed

lemma apply_orders_loop_routed_events:
  assumes "wf_units us" and "apply_orders_loop ts orders us = (ev, us')"
    and "i < length us" and "routed (snd (us ! i))"
  shows "\<forall>x \<in> set ev. \<not> order_accepted_for (uid (snd (us ! i))) x"
  using assms
proof (induction orders arbitrary: us ev us')
  case Nil
  then show ?case by simp
next
  case (Cons ord orders)
  obtain ev1 us1 where a: "apply_order ts ord us = (ev1, us1)" by (cases "apply_order ts ord us")
  obtain evs us2 where b: "apply_orders_loop ts orders us1 = (evs, us2)"
    by (cases "apply_orders_loop ts orders us1")
  from Cons.prems(2) a b have e: "ev = ev1 @ evs" by simp
  have d: "distinct (map fst us)" using Cons.prems(1) by (simp add: wf_units_def)
  have f: "units_rel order_frame us us1" using d a by (rule apply_order_frame)
  have wf1: "wf_units us1"
    using f _ Cons.prems(1) by (rule wf_units_rel) (rule order_frame_fields)
  have i1: "i < length us1" using f Cons.prems(3) by (simp add: units_rel_length)
  note o = order_frame_fields[OF conjunct2[OF units_rel_nth[OF f Cons.prems(3)]]]
  have r1: "routed (snd (us1 ! i))" using Cons.prems(4) by (simp add: o)
  note h1 = apply_order_routed_events[OF Cons.prems(1) a Cons.prems(3,4)]
  note h2 = Cons.IH[OF wf1 b i1 r1, unfolded o]
  from h1 h2 show ?case unfolding e by auto
qed


text \<open>Targeting never selects a routed unit as a shooter.\<close>

lemma find_targets_not_routed:
  assumes "distinct (map fst us)" and "find_targets ts us = Inr targets"
    and "(k, v) \<in> set us" and "routed v"
  shows "k \<notin> fst ` set targets"
proof
  assume "k \<in> fst ` set targets"
  then obtain tk where "(k, tk) \<in> set targets" by auto
  from find_targets_loop_sound[OF assms(2)[unfolded find_targets_def] this]
  obtain s where s: "(k, s) \<in> set us" "\<not> routed s" by blast
  from assms(1,3) s(1) have "s = v"
    by (meson eq_key_imp_eq_value)
  with s(2) assms(4) show False by simp
qed

text \<open>One step leaves a routed unit routed and frozen, names it in no OrderAccepted and no
  ShotFired event, and records it in no spotted-by set.\<close>

lemma step_routed:
  assumes st: "step e dt_ms = Inr (evts, e')"
    and wf: "wf_units (units (state e))"
    and i: "i < length (units (state e))"
    and r: "routed (snd (units (state e) ! i))"
  shows "wf_units (units (state e')) \<and> length (units (state e')) = length (units (state e))
     \<and> routed (snd (units (state e') ! i))
     \<and> uid (snd (units (state e') ! i)) = uid (snd (units (state e) ! i))
     \<and> pos (snd (units (state e') ! i)) = pos (snd (units (state e) ! i))
     \<and> intent_target_pos (snd (units (state e') ! i)) = intent_target_pos (snd (units (state e) ! i))
     \<and> target_id (snd (units (state e') ! i)) = target_id (snd (units (state e) ! i))
     \<and> ammo (snd (units (state e') ! i)) = ammo (snd (units (state e) ! i))
     \<and> last_fire_time (snd (units (state e') ! i)) = last_fire_time (snd (units (state e) ! i))
     \<and> (\<forall>x \<in> set evts. \<not> order_accepted_for (uid (snd (units (state e) ! i))) x
                          \<and> \<not> shot_by (uid (snd (units (state e) ! i))) x)
     \<and> (\<forall>j < length (units (state e')).
           uid (snd (units (state e) ! i)) \<notin> spotted_by (snd (units (state e') ! j)))"
proof -
  let ?u = "snd (units (state e) ! i)"
  have d0: "distinct (map fst (units (state e)))" using wf by (simp add: wf_units_def)
  from step_trace[OF st d0] obtain ev1 and e1 :: Engine and us2 us3 targets ev5 us5 r5 ev6 r6
    where p1: "apply_orders_now e = (ev1, e1)"
    and q3: "update_spotting us2 = Inr ([], us3)"
    and q4: "find_targets (ts_ms (state e)) us3 = Inr targets"
    and q5: "combat_loop (ts_ms (state e)) targets us3 (rng e) = Inr (ev5, us5, r5)"
    and q7: "evts = ev1 @ ev5 @ ev6"
    and r1: "units_rel order_frame (units (state e)) (units (state e1))"
    and r2: "units_rel move_frame (units (state e1)) us2"
    and r3: "units_rel spot_frame us2 us3"
    and r5: "units_rel combat_frame us3 us5"
    and r6: "units_rel morale_frame us5 (units (state e'))"
    and k1: "\<forall>x \<in> set ev1. ev_kind x = ''OrderAccepted''"
    and k5: "\<forall>x \<in> set ev5. combat_kind (ev_kind x)"
    and k6: "\<forall>x \<in> set ev6. ev_kind x = ''Routed''"
    by (elim exE conjE)
  let ?us0 = "units (state e)" and ?us1 = "units (state e1)" and ?us6 = "units (state e')"
  have l1: "length ?us1 = length ?us0" using r1 by (rule units_rel_length)
  have l2: "length us2 = length ?us0" using r2 l1 by (simp add: units_rel_length)
  have l3: "length us3 = length ?us0" using r3 l2 by (simp add: units_rel_length)
  have l5: "length us5 = length ?us0" using r5 l3 by (simp add: units_rel_length)
  have l6: "length ?us6 = length ?us0" using r6 l5 by (simp add: units_rel_length)
  have i1: "i < length ?us1" and i2: "i < length us2" and i3: "i < length us3"
    and i5: "i < length us5"
    using i l1 l2 l3 l5 by simp_all
  note n1 = units_rel_nth[OF r1 i] and n2 = units_rel_nth[OF r2 i1]
    and n3 = units_rel_nth[OF r3 i2] and n5 = units_rel_nth[OF r5 i3]
    and n6 = units_rel_nth[OF r6 i5]
  note o1 = order_frame_fields[OF conjunct2[OF n1]]
    and o2 = move_frame_fields[OF conjunct2[OF n2]]
    and o3 = spot_frame_fields[OF conjunct2[OF n3]]
    and o5 = combat_frame_fields[OF conjunct2[OF n5]]
    and o6 = morale_frame_fields[OF conjunct2[OF n6]]
  have wf1: "wf_units ?us1"
    using r1 _ wf by (rule wf_units_rel) (rule order_frame_fields)
  have wf2: "wf_units us2"
    using r2 _ wf1 by (rule wf_units_rel) (rule move_frame_fields)
  have wf3: "wf_units us3"
    using r3 _ wf2 by (rule wf_units_rel) (rule spot_frame_fields)
  have wf5: "wf_units us5"
    using r5 _ wf3 by (rule wf_units_rel) (rule combat_frame_fields)
  have wf6: "wf_units ?us6"
    using r6 _ wf5 by (rule wf_units_rel) (rule morale_frame_fields)
  have d3: "distinct (map fst us3)" using wf3 by (simp add: wf_units_def)
  \<comment> \<open>the unit stays as it is through orders and movement\<close>
  have u1: "snd (?us1 ! i) = ?u"
    using n1 r by (simp add: order_frame_def)
  have u2: "snd (us2 ! i) = ?u"
    using n2 r by (simp add: move_frame_def u1)
  have r3': "routed (snd (us3 ! i))" and id3: "uid (snd (us3 ! i)) = uid ?u"
    using r by (simp_all add: o3 u2)
  have r5': "routed (snd (us5 ! i))" by (simp add: o5 r3')
  have am5: "ammo (snd (us5 ! i)) = ammo (snd (us3 ! i))"
    "last_fire_time (snd (us5 ! i)) = last_fire_time (snd (us3 ! i))"
    using n5 r3' by (simp_all add: combat_frame_def)
  have rt: "routed (snd (?us6 ! i))"
    using n6 r5' by (simp add: morale_frame_def)
  have same: "uid (snd (?us6 ! i)) = uid ?u" "pos (snd (?us6 ! i)) = pos ?u"
    "intent_target_pos (snd (?us6 ! i)) = intent_target_pos ?u"
    "target_id (snd (?us6 ! i)) = target_id ?u"
    "ammo (snd (?us6 ! i)) = ammo ?u"
    "last_fire_time (snd (?us6 ! i)) = last_fire_time ?u"
    by (simp_all add: o6 o5 am5 o3 u2)
  \<comment> \<open>no event names it\<close>
  have a1: "\<forall>x \<in> set ev1. \<not> order_accepted_for (uid ?u) x"
    using wf apply_orders_now_facts(1)[OF p1] i r by (rule apply_orders_loop_routed_events)
  have a5: "\<forall>x \<in> set ev5. \<not> order_accepted_for (uid ?u) x"
    using k5 by (auto simp: order_accepted_for_def combat_kind_def)
  have a6: "\<forall>x \<in> set ev6. \<not> order_accepted_for (uid ?u) x"
    using k6 by (auto simp: order_accepted_for_def)
  have s1: "\<forall>x \<in> set ev1. \<not> shot_by (uid ?u) x"
    using k1 by (auto simp: shot_by_def)
  have s6: "\<forall>x \<in> set ev6. \<not> shot_by (uid ?u) x"
    using k6 by (auto simp: shot_by_def)
  have dt: "distinct (map fst targets)" using d3 q4 by (rule find_targets_distinct)
  have "(fst (us3 ! i), snd (us3 ! i)) \<in> set us3" using i3 by simp
  with find_targets_not_routed[OF d3 q4 _ r3'] have nk: "fst (us3 ! i) \<notin> set (map fst targets)"
    by simp
  from combat_loop_ammo[OF wf3 dt q5 i3] nk
  have "filter (shot_by (uid ?u)) ev5 = []" by (simp add: id3)
  then have s5: "\<forall>x \<in> set ev5. \<not> shot_by (uid ?u) x"
    by (simp add: filter_empty_conv)
  have evs: "\<forall>x \<in> set evts. \<not> order_accepted_for (uid ?u) x \<and> \<not> shot_by (uid ?u) x"
    unfolding q7 using a1 a5 a6 s1 s5 s6 by auto
  \<comment> \<open>nobody is spotted by it\<close>
  have sp: "uid ?u \<notin> spotted_by (snd (?us6 ! j))" if j: "j < length ?us6" for j
  proof
    assume m: "uid ?u \<in> spotted_by (snd (?us6 ! j))"
    have j2: "j < length us2" and j3: "j < length us3" and j5: "j < length us5"
      using j l2 l3 l5 l6 by simp_all
    have "spotted_by (snd (?us6 ! j)) = spotted_by (snd (us3 ! j))"
      using morale_frame_fields(8)[OF conjunct2[OF units_rel_nth[OF r6 j5]]]
        combat_frame_fields(6)[OF conjunct2[OF units_rel_nth[OF r5 j3]]] by simp
    with m update_spotting_spotted[OF q3 j2]
    obtain k where k: "k < length us2" "uid ?u \<in> spots (snd (us2 ! k)) (snd (us2 ! j))"
      by auto
    then have nr: "\<not> routed (snd (us2 ! k))" and ik: "uid (snd (us2 ! k)) = uid (snd (us2 ! i))"
      by (auto simp: spots_def u2 split: if_splits)
    have "distinct (map (\<lambda>a. uid (snd a)) us2)" using wf2 by (simp add: wf_units_def)
    from nth_eq_iff_index_eq[OF this, of k i] k(1) i2 ik have "k = i" by simp
    with nr r u2 show False by simp
  qed
  show ?thesis
    using wf6 l6 rt same evs sp by simp
qed

lemma run_calls_routed:
  assumes "run_calls e calls = Inr (evss, e')"
    and "wf_units (units (state e))"
    and "i < length (units (state e))"
    and "routed (snd (units (state e) ! i))"
  shows "length (units (state e')) = length (units (state e))
     \<and> routed (snd (units (state e') ! i))
     \<and> uid (snd (units (state e') ! i)) = uid (snd (units (state e) ! i))
     \<and> pos (snd (units (state e') ! i)) = pos (snd (units (state e) ! i))
     \<and> intent_target_pos (snd (units (state e') ! i)) = intent_target_pos (snd (units (state e) ! i))
     \<and> target_id (snd (units (state e') ! i)) = target_id (snd (units (state e) ! i))
     \<and> ammo (snd (units (state e') ! i)) = ammo (snd (units (state e) ! i))
     \<and> last_fire_time (snd (units (state e') ! i)) = last_fire_time (snd (units (state e) ! i))
     \<and> (\<forall>evts \<in> set evss. \<forall>x \<in> set evts.
            \<not> order_accepted_for (uid (snd (units (state e) ! i))) x
            \<and> \<not> shot_by (uid (snd (units (state e) ! i))) x)
     \<and> ((\<exists>dt. Step dt \<in> set calls)
          \<or> (\<forall>j < length (units (state e)).
                 uid (snd (units (state e) ! i)) \<notin> spotted_by (snd (units (state e) ! j)))
          \<longrightarrow> (\<forall>j < length (units (state e')).
                 uid (snd (units (state e) ! i)) \<notin> spotted_by (snd (units (state e') ! j))))"
  using assms
proof (induction calls arbitrary: e evss)
  case Nil
  then show ?case by simp
next
  case (Cons c calls)
  show ?case
  proof (cases c)
    case (Apply_orders orders)
    let ?e1 = "apply_orders e orders"
    have s: "state ?e1 = state e" by (simp add: apply_orders_def)
    from Cons.prems(1) have r: "run_calls ?e1 calls = Inr (evss, e')"
      by (simp add: Apply_orders)
    from Cons.IH[OF r] Cons.prems(2-4) show ?thesis
      unfolding s by (auto simp: Apply_orders)
  next
    case (Step dt)
    from Cons.prems(1) obtain evts e1 rest where
      st: "step e dt = Inr (evts, e1)" and r: "run_calls e1 calls = Inr (rest, e')"
      and ev: "evss = evts # rest"
      by (auto simp: Step bindE_Inr_iff)
    note h = step_routed[OF st Cons.prems(2-4)]
    from h have wf1: "wf_units (units (state e1))"
      and l1: "length (units (state e1)) = length (units (state e))"
      and r1: "routed (snd (units (state e1) ! i))"
      and id1: "uid (snd (units (state e1) ! i)) = uid (snd (units (state e) ! i))"
      by simp_all
    have i1: "i < length (units (state e1))" using l1 Cons.prems(3) by simp
    note ih = Cons.IH[OF r wf1 i1 r1, unfolded id1]
    from h ih show ?thesis unfolding ev by (simp add: Step)
  qed
qed

subsection \<open>Targeting finds a target when there is one\<close>




subsection \<open>The attack target is never read after order application\<close>

lemma erase_target_fields [simp]:
  "uid (erase_target u) = uid u" "side (erase_target u) = side u"
  "unit_type_id (erase_target u) = unit_type_id u" "pos (erase_target u) = pos u"
  "hp (erase_target u) = hp u" "ammo (erase_target u) = ammo u"
  "intent_target_pos (erase_target u) = intent_target_pos u"
  "routed (erase_target u) = routed u" "last_fire_time (erase_target u) = last_fire_time u"
  "spotted_by (erase_target u) = spotted_by u" "target_id (erase_target u) = None"
  by (simp_all add: erase_target_def)

lemma erase_target_idem [simp]: "erase_target (erase_target u) = erase_target u"
  by (simp add: erase_target_def)

lemma erase_units_simps [simp]:
  "erase_units [] = []"
  "erase_units ((k, u) # us) = (k, erase_target u) # erase_units us"
  "length (erase_units us) = length us"
  "erase_units (erase_units us) = erase_units us"
  by (simp_all add: erase_units_def)

lemma erase_units_nth:
  "i < length us \<Longrightarrow> erase_units us ! i = (fst (us ! i), erase_target (snd (us ! i)))"
  by (simp add: erase_units_def)

lemma units_get_erase: "units_get (erase_units us) k = map_option erase_target (units_get us k)"
  by (induction us) (auto simp: units_get_def erase_units_def)

lemma units_upd_erase:
  assumes "\<And>u. f (erase_target u) = erase_target (f u)"
  shows "units_upd (erase_units us) k f = erase_units (units_upd us k f)"
  by (induction us) (auto simp: units_upd_def erase_units_def assms)

lemma get_type_erase [simp]: "get_type (erase_target u) = get_type u"
  by (simp add: get_type_def cong: option.case_cong)

lemma erase_target_updates:
  "(erase_target u)\<lparr> pos := p \<rparr> = erase_target (u\<lparr> pos := p \<rparr>)"
  "(erase_target u)\<lparr> spotted_by := s \<rparr> = erase_target (u\<lparr> spotted_by := s \<rparr>)"
  "(erase_target u)\<lparr> hp := h \<rparr> = erase_target (u\<lparr> hp := h \<rparr>)"
  "(erase_target u)\<lparr> routed := b \<rparr> = erase_target (u\<lparr> routed := b \<rparr>)"
  "(erase_target u)\<lparr> ammo := a, last_fire_time := l \<rparr>
     = erase_target (u\<lparr> ammo := a, last_fire_time := l \<rparr>)"
  by (simp_all add: erase_target_def)

lemma for_each_unit_erase:
  assumes "\<And>u. f' (erase_target u) = erase_unit_res (f u)"
  shows "for_each_unit f' (erase_units us) = erase_res (for_each_unit f us)"
proof (induction us)
  case Nil
  then show ?case by (simp add: erase_res_def)
next
  case (Cons a us)
  obtain k u where a: "a = (k, u)" by (cases a)
  show ?case
    unfolding a
    by (cases "f u"; cases "for_each_unit f us")
       (simp_all add: assms Cons.IH bindE_def erase_res_def erase_unit_res_def)
qed

lemma move_unit_erase: "move_unit dt_ms (erase_target u) = erase_unit_res (move_unit dt_ms u)"
  by (cases "get_type u")
     (simp_all add: move_unit_def erase_unit_res_def bindE_def Let_def erase_target_updates
        split: option.splits)

lemma can_detect_erase [simp]:
  "can_detect (erase_target d) (erase_target t) = can_detect d t"
  by (simp add: can_detect_def)

lemma spot_target_erase:
  "spot_target (erase_target d) (erase_target t) = erase_unit_res (spot_target d t)"
  by (cases "can_detect d t")
     (simp_all add: spot_target_def erase_unit_res_def bindE_def erase_target_updates)

lemma for_each_unit_length: "for_each_unit f us = Inr us' \<Longrightarrow> length us' = length us"
  by (drule for_each_unit_rel) (rule units_rel_length)

lemma spot_loop_erase:
  assumes "\<forall>i \<in> set is. i < length us"
  shows "spot_loop is (erase_units us) = erase_res (spot_loop is us)"
  using assms
proof (induction "is" arbitrary: us)
  case Nil
  then show ?case by (simp add: erase_res_def)
next
  case (Cons i "is")
  from Cons.prems have i: "i < length us" and r: "\<forall>i \<in> set is. i < length us" by simp_all
  have d: "snd (erase_units us ! i) = erase_target (snd (us ! i))"
    using i by (simp add: erase_units_nth)
  show ?case
  proof (cases "routed (snd (us ! i))")
    case True
    with Cons.IH[OF r] show ?thesis by (simp add: d Let_def)
  next
    case False
    have f: "for_each_unit (spot_target (erase_target (snd (us ! i)))) (erase_units us)
               = erase_res (for_each_unit (spot_target (snd (us ! i))) us)"
      by (rule for_each_unit_erase) (rule spot_target_erase)
    show ?thesis
    proof (cases "for_each_unit (spot_target (snd (us ! i))) us")
      case (Inl x)
      with False show ?thesis by (simp add: d Let_def f erase_res_def bindE_def)
    next
      case (Inr us1)
      have "\<forall>i \<in> set is. i < length us1"
        using r for_each_unit_length[OF Inr] by simp
      from Cons.IH[OF this] Inr False show ?thesis
        by (simp add: d Let_def f erase_res_def bindE_def)
    qed
  qed
qed

lemma update_spotting_erase:
  "update_spotting (erase_units us) = erase_ev_res (update_spotting us)"
proof -
  let ?c = "map (\<lambda>(k, u). (k, u\<lparr> spotted_by := {} \<rparr>)) us"
  have c: "map (\<lambda>(k, u). (k, u\<lparr> spotted_by := {} \<rparr>)) (erase_units us) = erase_units ?c"
    by (induction us) (simp_all add: erase_target_updates split: prod.splits)
  have "spot_loop [0..<length ?c] (erase_units ?c) = erase_res (spot_loop [0..<length ?c] ?c)"
    by (rule spot_loop_erase) simp
  then show ?thesis
    unfolding update_spotting_def Let_def c
    by (cases "spot_loop [0..<length ?c] ?c")
       (simp_all add: erase_res_def erase_ev_res_def bindE_def)
qed

lemma move_erase: "move dt_ms (erase_units us) = erase_ev_res (move dt_ms us)"
proof -
  have "for_each_unit (move_unit dt_ms) (erase_units us)
          = erase_res (for_each_unit (move_unit dt_ms) us)"
    by (rule for_each_unit_erase) (rule move_unit_erase)
  then show ?thesis
    unfolding move_def
    by (cases "for_each_unit (move_unit dt_ms) us")
       (simp_all add: erase_res_def erase_ev_res_def bindE_def)
qed

lemma can_fire_at_erase [simp]:
  "can_fire_at (erase_target a) (erase_target t) ct = can_fire_at a t ct"
  by (simp add: can_fire_at_def Let_def cong: if_cong)

lemma best_target_loop_erase:
  "best_target_loop ts (erase_target u) (erase_units cands) best = best_target_loop ts u cands best"
proof (induction cands arbitrary: best)
  case Nil
  then show ?case by simp
next
  case (Cons c cands)
  obtain k t where c: "c = (k, t)" by (cases c)
  show ?case unfolding c
    by (cases "can_fire_at u t (real_of_int ts)") (simp_all add: Cons.IH bindE_def Let_def)
qed

lemma find_targets_loop_erase:
  "find_targets_loop ts (erase_units us) (erase_units todo) = find_targets_loop ts us todo"
proof (induction todo)
  case Nil
  then show ?case by simp
next
  case (Cons c todo)
  obtain k u where c: "c = (k, u)" by (cases c)
  show ?case unfolding c
    by (simp add: Cons.IH best_target_loop_erase)
qed

lemma find_targets_erase: "find_targets ts (erase_units us) = find_targets ts us"
  by (simp add: find_targets_def find_targets_loop_erase)

lemma calculate_damage_erase [simp]:
  "calculate_damage (erase_target a) (erase_target t) b = calculate_damage a t b"
  by (simp add: calculate_damage_def)

lemma units_upd_erase_fire:
  "units_upd (erase_units us) k (\<lambda>s. s\<lparr> ammo := ammo s - 1, last_fire_time := x \<rparr>)
     = erase_units (units_upd us k (\<lambda>s. s\<lparr> ammo := ammo s - 1, last_fire_time := x \<rparr>))"
  by (rule units_upd_erase) (simp add: erase_target_def)

lemma units_upd_erase_hp:
  "units_upd (erase_units us) k (\<lambda>t. t\<lparr> hp := hp t - d \<rparr>)
     = erase_units (units_upd us k (\<lambda>t. t\<lparr> hp := hp t - d \<rparr>))"
  by (rule units_upd_erase) (simp add: erase_target_def)

lemma combat_pair_erase:
  "combat_pair ts p (erase_units us) r = erase_combat_res (combat_pair ts p us r)"
proof (cases "units_get us (fst p)")
  case None
  then show ?thesis
    by (simp add: combat_pair_def units_get_erase erase_combat_res_def Let_def)
next
  case s: (Some s)
  show ?thesis
  proof (cases "units_get us (snd p)")
    case None
    with s show ?thesis
      by (simp add: combat_pair_def units_get_erase erase_combat_res_def Let_def)
  next
    case t: (Some t)
    show ?thesis
    proof (cases "routed s \<or> hp t \<le> 0")
      case True
      with s t show ?thesis
        by (auto simp: combat_pair_def units_get_erase erase_combat_res_def Let_def)
    next
      case False
      show ?thesis
      proof (cases "get_type s")
        case (Inl x)
        with s t False show ?thesis
          by (simp add: combat_pair_def units_get_erase erase_combat_res_def Let_def bindE_def)
      next
        case st: (Inr s_type)
        show ?thesis
        proof (cases "calculate_damage s t (damage s_type)")
          case (Inl x)
          with s t False st show ?thesis
            by (simp add: combat_pair_def units_get_erase erase_combat_res_def Let_def bindE_def
                units_upd_erase_fire units_upd_erase_hp split: prod.splits)
        next
          case (Inr dmg)
          with s t False st show ?thesis
            by (simp add: combat_pair_def units_get_erase erase_combat_res_def Let_def bindE_def
                units_upd_erase_fire units_upd_erase_hp split: prod.splits)
        qed
      qed
    qed
  qed
qed

lemma combat_loop_erase:
  "combat_loop ts pairs (erase_units us) r = erase_combat_res (combat_loop ts pairs us r)"
proof (induction pairs arbitrary: us r)
  case Nil
  then show ?case by (simp add: erase_combat_res_def)
next
  case (Cons p pairs)
  show ?case
  proof (cases "combat_pair ts p us r")
    case (Inl x)
    then show ?thesis by (simp add: combat_pair_erase erase_combat_res_def bindE_def)
  next
    case (Inr y)
    obtain ev1 us1 r1 where y: "y = (ev1, us1, r1)" by (cases y)
    show ?thesis
      by (cases "combat_loop ts pairs us1 r1")
         (auto simp: combat_pair_erase Inr y Cons.IH erase_combat_res_def bindE_def)
  qed
qed

lemma morale_unit_erase:
  "morale_unit ts (erase_target u) r
     = (case morale_unit ts u r of Inl x \<Rightarrow> Inl x
        | Inr (ev, u', r') \<Rightarrow> Inr (ev, erase_target u', r'))"
proof -
  define low where "low = (\<lambda>ut :: UnitType. max 0 (hp u) / max_hp ut < 3/10)"
  have a: "morale_unit ts v r =
     (if routed v then Inr ([], v, r)
      else bindE (get_type v) (\<lambda>u_type.
        if low u_type then
          (let (b, r1) = bernoulli r (1/2) in
           if b then Inr ([mk_Event ''Routed'' ts [(''unit_id'', Str (uid v))]],
                          v\<lparr> routed := True \<rparr>, r1)
           else Inr ([], v, r1))
        else Inr ([], v, r)))"
    if "hp v = hp u" for v
    unfolding morale_unit_def low_def Let_def that by (rule refl)
  have e: "hp (erase_target u) = hp u" by simp
  show ?thesis
    unfolding a[OF e] a[OF refl]
    by (cases "get_type u")
       (simp_all add: bindE_def Let_def bernoulli_def erase_target_updates)
qed

lemma morale_loop_erase:
  "morale_loop ts (erase_units us) r = erase_combat_res (morale_loop ts us r)"
proof (induction us arbitrary: r)
  case Nil
  then show ?case by (simp add: erase_combat_res_def)
next
  case (Cons c us)
  obtain k u where c: "c = (k, u)" by (cases c)
  show ?case
  proof (cases "morale_unit ts u r")
    case (Inl x)
    then show ?thesis by (simp add: c morale_unit_erase erase_combat_res_def bindE_def)
  next
    case (Inr y)
    obtain ev1 u1 r1 where y: "y = (ev1, u1, r1)" by (cases y)
    show ?thesis
      by (cases "morale_loop ts us r1")
         (auto simp: c morale_unit_erase Inr y Cons.IH erase_combat_res_def bindE_def)
  qed
qed

lemma later_phases_erase:
  "later_phases dt_ms ts (erase_units us) r = erase_combat_res (later_phases dt_ms ts us r)"
proof (cases "move dt_ms us")
  case (Inl x)
  then show ?thesis
    by (simp add: later_phases_def move_erase erase_ev_res_def erase_combat_res_def bindE_def)
next
  case m: (Inr y2)
  obtain ev2 us2 where y2: "y2 = (ev2, us2)" by (cases y2)
  show ?thesis
  proof (cases "update_spotting us2")
    case (Inl x)
    with m y2 show ?thesis
      by (simp add: later_phases_def move_erase update_spotting_erase erase_ev_res_def
          erase_combat_res_def bindE_def)
  next
    case sp: (Inr y3)
    obtain ev3 us3 where y3: "y3 = (ev3, us3)" by (cases y3)
    show ?thesis
    proof (cases "find_targets ts us3")
      case (Inl x)
      with m y2 sp y3 show ?thesis
        by (simp add: later_phases_def move_erase update_spotting_erase find_targets_erase
            erase_ev_res_def erase_combat_res_def bindE_def)
    next
      case ft: (Inr targets)
      show ?thesis
      proof (cases "combat_loop ts targets us3 r")
        case (Inl x)
        with m y2 sp y3 ft show ?thesis
          by (simp add: later_phases_def move_erase update_spotting_erase find_targets_erase
              combat_def combat_loop_erase erase_ev_res_def erase_combat_res_def bindE_def)
      next
        case cb: (Inr y5)
        obtain ev5 us5 r5 where y5: "y5 = (ev5, us5, r5)" by (cases y5)
        show ?thesis
          using m y2 sp y3 ft cb y5
          by (cases "morale_loop ts us5 r5")
             (auto simp: later_phases_def move_erase update_spotting_erase find_targets_erase
              combat_def combat_loop_erase morale_def morale_loop_erase erase_ev_res_def
              erase_combat_res_def bindE_def)
      qed
    qed
  qed
qed

lemma step_later_phases:
  "step e dt_ms =
     (let (ev1, e1) = apply_orders_now e; ts = ts_ms (state e1)
      in bindE (later_phases dt_ms ts (units (state e1)) (rng e1)) (\<lambda>(ev, us6, r6).
           Inr (ev1 @ ev,
                e1\<lparr> state := (state e1)\<lparr> units := us6, ts_ms := ts + dt_ms \<rparr>, rng := r6 \<rparr>)))"
  unfolding step_def later_phases_def
  by (auto simp: Let_def bindE_def split: prod.splits sum.splits)

lemma erase_units_upd:
  assumes "\<And>u. erase_target (f (erase_target u)) = erase_target (f u)"
  shows "erase_units (units_upd (erase_units us) k f) = erase_units (units_upd us k f)"
  by (induction us) (auto simp: units_upd_def erase_units_def assms)

lemma apply_order_erase:
  "fst (apply_order ts ord (erase_units us)) = fst (apply_order ts ord us)
   \<and> erase_units (snd (apply_order ts ord (erase_units us)))
       = erase_units (snd (apply_order ts ord us))"
proof (cases "units_get us (unit_id ord)")
  case None
  then show ?thesis by (simp add: apply_order_def units_get_erase)
next
  case (Some u)
  have 1: "erase_units (units_upd (erase_units us) k (\<lambda>u. u\<lparr> intent_target_pos := q \<rparr>))
          = erase_units (units_upd us k (\<lambda>u. u\<lparr> intent_target_pos := q \<rparr>))" for k q
    by (rule erase_units_upd) (simp add: erase_target_def)
  have 2: "erase_units (units_upd (erase_units us) k (\<lambda>u. u\<lparr> target_id := q \<rparr>))
          = erase_units (units_upd us k (\<lambda>u. u\<lparr> target_id := q \<rparr>))" for k q
    by (rule erase_units_upd) (simp add: erase_target_def)
  have 3: "erase_units (units_upd (erase_units us) k
                (\<lambda>u. u\<lparr> intent_target_pos := None, target_id := None \<rparr>))
          = erase_units (units_upd us k (\<lambda>u. u\<lparr> intent_target_pos := None, target_id := None \<rparr>))"
    for k
    by (rule erase_units_upd) (simp add: erase_target_def)
  show ?thesis
    using Some
    by (cases "routed u")
       (auto simp: apply_order_def units_get_erase 1 2 3 split: option.splits)
qed

lemma apply_orders_loop_erase:
  assumes "erase_units a = erase_units b"
  shows "fst (apply_orders_loop ts orders a) = fst (apply_orders_loop ts orders b)
     \<and> erase_units (snd (apply_orders_loop ts orders a))
         = erase_units (snd (apply_orders_loop ts orders b))"
  using assms
proof (induction orders arbitrary: a b)
  case Nil
  then show ?case by simp
next
  case (Cons ord orders)
  obtain ev1 a1 where a: "apply_order ts ord a = (ev1, a1)" by (cases "apply_order ts ord a")
  obtain ev2 b1 where b: "apply_order ts ord b = (ev2, b1)" by (cases "apply_order ts ord b")
  from apply_order_erase[of ts ord a] apply_order_erase[of ts ord b] Cons.prems a b
  have e: "ev1 = ev2" and r: "erase_units a1 = erase_units b1" by simp_all
  from Cons.IH[OF r] show ?case
    by (auto simp: a b e split: prod.splits)
qed

lemma erase_engine_eqD:
  assumes "erase_engine e1 = erase_engine e2"
  shows "rng e1 = rng e2" "pending_orders e1 = pending_orders e2"
    "ts_ms (state e1) = ts_ms (state e2)" "battle_id (state e1) = battle_id (state e2)"
    "erase_units (units (state e1)) = erase_units (units (state e2))"
proof -
  from arg_cong[OF assms, of rng] show "rng e1 = rng e2" by (simp add: erase_engine_def)
  from arg_cong[OF assms, of pending_orders] show "pending_orders e1 = pending_orders e2"
    by (simp add: erase_engine_def)
  from arg_cong[OF assms, of "\<lambda>e. ts_ms (state e)"] show "ts_ms (state e1) = ts_ms (state e2)"
    by (simp add: erase_engine_def)
  from arg_cong[OF assms, of "\<lambda>e. battle_id (state e)"]
  show "battle_id (state e1) = battle_id (state e2)"
    by (simp add: erase_engine_def)
  from arg_cong[OF assms, of "\<lambda>e. units (state e)"]
  show "erase_units (units (state e1)) = erase_units (units (state e2))"
    by (simp add: erase_engine_def)
qed

lemma erase_engine_eqI:
  fixes e1 e2 :: Engine
  assumes "rng e1 = rng e2" "pending_orders e1 = pending_orders e2"
    "ts_ms (state e1) = ts_ms (state e2)" "battle_id (state e1) = battle_id (state e2)"
    "erase_units (units (state e1)) = erase_units (units (state e2))"
  shows "erase_engine e1 = erase_engine e2"
proof -
  obtain s1 r1 p1 where e1: "e1 = \<lparr> state = s1, rng = r1, pending_orders = p1 \<rparr>"
    by (cases e1) auto
  obtain s2 r2 p2 where e2: "e2 = \<lparr> state = s2, rng = r2, pending_orders = p2 \<rparr>"
    by (cases e2) auto
  obtain t1 u1 b1 where s1: "s1 = \<lparr> ts_ms = t1, units = u1, battle_id = b1 \<rparr>"
    by (cases s1) auto
  obtain t2 u2 b2 where s2: "s2 = \<lparr> ts_ms = t2, units = u2, battle_id = b2 \<rparr>"
    by (cases s2) auto
  from assms show ?thesis
    by (simp add: e1 e2 s1 s2 erase_engine_def)
qed

lemma step_erase:
  assumes "erase_engine e1 = erase_engine e2"
  shows "erase_step_res (step e1 dt_ms) = erase_step_res (step e2 dt_ms)"
proof -
  note d = erase_engine_eqD[OF assms]
  obtain ev1 a where a: "apply_orders_now e1 = (ev1, a)" by (cases "apply_orders_now e1")
  obtain ev2 b where b: "apply_orders_now e2 = (ev2, b)" by (cases "apply_orders_now e2")
  note fa = apply_orders_now_facts[OF a] and fb = apply_orders_now_facts[OF b]
  from apply_orders_loop_erase[OF d(5), of "ts_ms (state e1)" "pending_orders e1"] fa(1) fb(1) d
  have ev: "ev1 = ev2" and us: "erase_units (units (state a)) = erase_units (units (state b))"
    by simp_all
  have ts: "ts_ms (state a) = ts_ms (state b)" and r: "rng a = rng b"
    and bi: "battle_id (state a) = battle_id (state b)"
    using fa fb d by simp_all
  let ?la = "later_phases dt_ms (ts_ms (state a)) (units (state a)) (rng a)"
  let ?lb = "later_phases dt_ms (ts_ms (state b)) (units (state b)) (rng b)"
  have l: "erase_combat_res ?la = erase_combat_res ?lb"
    using later_phases_erase[of dt_ms "ts_ms (state a)" "units (state a)" "rng a"]
      later_phases_erase[of dt_ms "ts_ms (state b)" "units (state b)" "rng b"]
    by (simp add: us ts r)
  show ?thesis
  proof (cases ?la)
    case (Inl x)
    with l have "?lb = Inl x"
      by (cases ?lb) (auto simp: erase_combat_res_def split: prod.splits)
    with Inl show ?thesis
      by (simp add: step_later_phases a b erase_step_res_def bindE_def)
  next
    case (Inr y)
    obtain ev usa ra where y: "y = (ev, usa, ra)" by (cases y)
    from l Inr y obtain usb where lb: "?lb = Inr (ev, usb, ra)"
      and u: "erase_units usa = erase_units usb"
      by (cases ?lb) (auto simp: erase_combat_res_def split: prod.splits)
    have "erase_engine (a\<lparr> state := (state a)\<lparr> units := usa, ts_ms := ts_ms (state a) + dt_ms \<rparr>,
                            rng := ra \<rparr>)
        = erase_engine (b\<lparr> state := (state b)\<lparr> units := usb, ts_ms := ts_ms (state b) + dt_ms \<rparr>,
                            rng := ra \<rparr>)"
      by (rule erase_engine_eqI) (simp_all add: fa fb d u)
    with Inr y lb ev show ?thesis
      by (simp add: step_later_phases a b erase_step_res_def bindE_def)
  qed
qed

lemma erase_units_eq_nth:
  assumes "erase_units a = erase_units b" and "i < length a"
  shows "fst (a ! i) = fst (b ! i)" "pos (snd (a ! i)) = pos (snd (b ! i))"
    "hp (snd (a ! i)) = hp (snd (b ! i))" "ammo (snd (a ! i)) = ammo (snd (b ! i))"
    "routed (snd (a ! i)) = routed (snd (b ! i))"
proof -
  from arg_cong[OF assms(1), of length] have l: "length b = length a" by simp
  from arg_cong[OF assms(1), of "\<lambda>x. x ! i"] assms(2) l
  have e: "fst (a ! i) = fst (b ! i)" "erase_target (snd (a ! i)) = erase_target (snd (b ! i))"
    by (simp_all add: erase_units_nth)
  show "fst (a ! i) = fst (b ! i)" by (rule e(1))
  from arg_cong[OF e(2), of pos] show "pos (snd (a ! i)) = pos (snd (b ! i))" by simp
  from arg_cong[OF e(2), of hp] show "hp (snd (a ! i)) = hp (snd (b ! i))" by simp
  from arg_cong[OF e(2), of ammo] show "ammo (snd (a ! i)) = ammo (snd (b ! i))" by simp
  from arg_cong[OF e(2), of routed] show "routed (snd (a ! i)) = routed (snd (b ! i))" by simp
qed

subsection \<open>The client timestamp of an order is never read\<close>







section \<open>Event log and tick scheduler\<close>

text \<open>C8, as amended. For every offset \<open>off\<close> and every limit \<open>l\<close> that is not negative,
  \<open>since\<close> returns the contiguous slice of the log that starts at index \<open>max 0 off\<close> and holds at
  most \<open>l\<close> events, with the resume offset \<open>max 0 off\<close> plus the number of events returned;
  \<open>append_many\<close> appends the events in order and returns the first and the last offset they
  occupy.\<close>

theorem since_slice_append_many_range:
  assumes "0 \<le> l"
  shows "since lg off l =
           (take (nat l) (drop (nat (max 0 off)) (elog lg)),
            max 0 off + int (length (take (nat l) (drop (nat (max 0 off)) (elog lg)))))
         \<and> int (length (fst (since lg off l))) \<le> l
         \<and> append_many lg evts =
             ((int (length (elog lg)), int (length (elog lg)) + int (length evts) - 1),
              lg\<lparr> elog := elog lg @ evts \<rparr>)
         \<and> (\<forall>i < length evts.
               elog (snd (append_many lg evts)) ! (length (elog lg) + i) = evts ! i)"
proof -
  have chunk: "py_slice (elog lg) (max 0 off) (max 0 off + l)
                 = take (nat l) (drop (nat (max 0 off)) (elog lg))"
    using assms
    by (auto simp: py_slice_def slice_bound_def Let_def min_def max_def)
  have a: "since lg off l =
           (take (nat l) (drop (nat (max 0 off)) (elog lg)),
            max 0 off + int (length (take (nat l) (drop (nat (max 0 off)) (elog lg)))))"
    by (simp add: since_def Let_def chunk)
  have b: "int (length (fst (since lg off l))) \<le> l"
    using assms by (simp add: since_def Let_def chunk)
  have c: "append_many lg evts =
             ((int (length (elog lg)), int (length (elog lg)) + int (length evts) - 1),
              lg\<lparr> elog := elog lg @ evts \<rparr>)"
    by (simp add: append_many_def Let_def)
  have d: "\<forall>i < length evts.
               elog (snd (append_many lg evts)) ! (length (elog lg) + i) = evts ! i"
    by (simp add: c)
  from a b c d show ?thesis by blast
qed

theorem since_slice_append_many_range_witness:
  "(0::int) \<le> 1
   \<and> since example_log 1 1 = ([mk_Event ''ShotFired'' 500 []], 2)
   \<and> append_many example_log [mk_Event ''Routed'' 1000 []] =
       ((3, 3), example_log\<lparr> elog := elog example_log @ [mk_Event ''Routed'' 1000 []] \<rparr>)"
proof -
  have h: "(0::int) \<le> 1" by simp
  from since_slice_append_many_range[OF h, of example_log 1 "[mk_Event ''Routed'' 1000 []]"]
  show ?thesis by (simp add: example_log_def mk_Event_def)
qed

text \<open>C8 as stated fails for a negative limit: on a log of three events, \<open>since\<close> with offset
  0 and limit -1 returns the first two events, which is more than the limit allows.\<close>

theorem since_negative_limit_counterexample:
  "since example_log 0 (-1) =
     ([mk_Event ''OrderAccepted'' 0 [], mk_Event ''ShotFired'' 500 []], 2)
   \<and> \<not> int (length (fst (since example_log 0 (-1)))) \<le> -1"
  by (simp add: since_def py_slice_def slice_bound_def Let_def example_log_def)

text \<open>C2, as amended. For every factor \<open>f\<close>, \<open>set_time_compression\<close> stores \<open>f\<close> clamped to
  the interval from 0.1 to 1000, and the sleep between ticks becomes the tick in seconds
  divided by the larger of 1 and that clamped factor.\<close>

theorem set_time_compression_clamps:
  "time_compression (set_time_compression r f) = max (1/10) (min 1000 f)
   \<and> sleep_s (set_time_compression r f) =
       (real_of_int (tick_ms r) / 1000) / max 1 (max (1/10) (min 1000 f))
   \<and> tick_ms (set_time_compression r f) = tick_ms r"
  by (simp add: set_time_compression_def Let_def)

text \<open>C2 as stated fails for a factor below 1: with a tick of 500 ms and factor 0.1 the
  stored factor is 0.1 but the sleep is 0.5 s, not 0.5 / 0.1 = 5 s.\<close>

theorem set_time_compression_counterexample:
  "time_compression (set_time_compression (TickRunner_init 500 30) (1/10)) = 1/10
   \<and> sleep_s (set_time_compression (TickRunner_init 500 30) (1/10)) = 1/2
   \<and> sleep_s (set_time_compression (TickRunner_init 500 30) (1/10))
       \<noteq> (real_of_int 500 / 1000) / (1/10)"
  by (simp add: set_time_compression_def TickRunner_init_def Let_def)

section \<open>Damage on a hit\<close>

text \<open>C3. For every shooter and target, the damage applied on a successful hit is the base
  damage of the shooter's unit type times the multiplier of the weapon-versus-armor table:
  \<open>_calculate_damage\<close> computes that product for every weapon and every armor level from 0,
  and a combat iteration whose Bernoulli trial succeeds reports it in the Damage event and
  subtracts it from the target's hit points.\<close>

theorem damage_on_hit_follows_table:
  assumes "units_get us sk = Some s" and "units_get us tk = Some t"
    and "\<not> routed s" and "0 < hp t"
    and "get_type s = Inr s_type" and "get_type t = Inr t_type"
    and "shd (gen r) < hit_probability (distance_2d (pos s) (pos t))"
  shows "(\<forall>w a b. 0 \<le> a \<longrightarrow> damage_by_armor w a b = b * spec_multiplier w a)
    \<and> calculate_damage s t (damage s_type) =
        Inr (damage s_type * spec_multiplier (weapon_type s_type) (armor t_type))
    \<and> (\<exists>evs us' r'.
        combat_pair ts (sk, tk) us r = Inr (evs, us', r')
        \<and> evs ! 1 = mk_Event ''Damage'' ts
             [(''target'', Str (uid t)),
              (''dmg'', Num (damage s_type * spec_multiplier (weapon_type s_type) (armor t_type))),
              (''hp'', Num (hp t - damage s_type
                                  * spec_multiplier (weapon_type s_type) (armor t_type))),
              (''shooter'', Str (uid s))]
        \<and> map_option hp (units_get us' tk) =
            Some (hp t - damage s_type * spec_multiplier (weapon_type s_type) (armor t_type)))"
proof -
  have arm: "0 \<le> armor t_type"
    using assms(6) by (rule catalog_armor)
  have tab: "\<forall>w a b. 0 \<le> a \<longrightarrow> damage_by_armor w a b = b * spec_multiplier w a"
    by (simp add: damage_by_armor_table)
  have cd: "calculate_damage s t (damage s_type) =
        Inr (damage s_type * spec_multiplier (weapon_type s_type) (armor t_type))"
    using assms(5,6) arm by (simp add: calculate_damage_def bindE_def damage_by_armor_table)
  have cp: "\<exists>evs us' r'.
        combat_pair ts (sk, tk) us r = Inr (evs, us', r')
        \<and> evs ! 1 = mk_Event ''Damage'' ts
             [(''target'', Str (uid t)),
              (''dmg'', Num (damage s_type * spec_multiplier (weapon_type s_type) (armor t_type))),
              (''hp'', Num (hp t - damage s_type
                                  * spec_multiplier (weapon_type s_type) (armor t_type))),
              (''shooter'', Str (uid s))]
        \<and> map_option hp (units_get us' tk) =
            Some (hp t - damage s_type * spec_multiplier (weapon_type s_type) (armor t_type))"
    using assms arm
    by (auto simp: combat_pair_def Let_def bindE_def bernoulli_def calculate_damage_def
        damage_by_armor_table units_get_upd split: prod.splits)
  from tab cd cp show ?thesis by blast
qed

theorem damage_on_hit_follows_table_witness:
  "units_get example_units ''B1'' = Some example_blue
   \<and> units_get example_units ''R1'' = Some example_red
   \<and> \<not> routed example_blue \<and> 0 < hp example_red
   \<and> get_type example_blue = Inr RECON_type \<and> get_type example_red = Inr INFANTRY_type
   \<and> shd (gen \<lparr> gen = sconst 0 \<rparr>)
        < hit_probability (distance_2d (pos example_blue) (pos example_red))
   \<and> calculate_damage example_blue example_red (damage RECON_type) = Inr 5
   \<and> (\<exists>evs us' r'.
        combat_pair 10000 (''B1'', ''R1'') example_units \<lparr> gen = sconst 0 \<rparr> = Inr (evs, us', r')
        \<and> map_option hp (units_get us' ''R1'') = Some 75)"
proof -
  have h1: "units_get example_units ''B1'' = Some example_blue"
    and h2: "units_get example_units ''R1'' = Some example_red"
    by (simp_all add: units_get_def example_defs)
  have h3: "\<not> routed example_blue" and h4: "0 < hp example_red"
    by (simp_all add: example_defs)
  have h5: "get_type example_blue = Inr RECON_type"
    and h6: "get_type example_red = Inr INFANTRY_type"
    by (simp_all add: get_type_def UNIT_TYPES_def example_defs)
  have h7: "shd (gen \<lparr> gen = sconst 0 \<rparr>)
        < hit_probability (distance_2d (pos example_blue) (pos example_red))"
    by (simp add: hit_probability_def distance_2d_def base_acc_def decay_m_def example_defs)
  have m: "damage RECON_type * spec_multiplier (weapon_type RECON_type) (armor INFANTRY_type) = 5"
    by (simp add: RECON_type_def INFANTRY_type_def spec_multiplier_def)
  have e: "hp example_red = 80"
    by (simp add: example_defs)
  from damage_on_hit_follows_table[OF h1 h2 h3 h4 h5 h6 h7, of 10000]
  have "calculate_damage example_blue example_red (damage RECON_type) = Inr 5
   \<and> (\<exists>evs us' r'.
        combat_pair 10000 (''B1'', ''R1'') example_units \<lparr> gen = sconst 0 \<rparr> = Inr (evs, us', r')
        \<and> map_option hp (units_get us' ''R1'') = Some 75)"
    unfolding m e by auto
  with h1 h2 h3 h4 h5 h6 h7 show ?thesis by blast
qed

section \<open>Order of the events of a step\<close>

lemma precedes_append:
  assumes "\<forall>x \<in> set xs. \<not> Q x" and "\<forall>y \<in> set ys. \<not> P y"
  shows "precedes P Q (xs @ ys)"
  unfolding precedes_def
proof (intro allI impI, elim conjE)
  fix i j
  assume i: "i < length (xs @ ys)" and j: "j < length (xs @ ys)"
    and p: "P ((xs @ ys) ! i)" and q: "Q ((xs @ ys) ! j)"
  have "i < length xs"
  proof (rule ccontr)
    assume "\<not> i < length xs"
    then have "(xs @ ys) ! i = ys ! (i - length xs)" "i - length xs < length ys"
      using i by (simp_all add: nth_append)
    then have "(xs @ ys) ! i \<in> set ys" by simp
    with assms(2) p show False by blast
  qed
  moreover have "\<not> j < length xs"
  proof
    assume "j < length xs"
    then have "(xs @ ys) ! j \<in> set xs" by (simp add: nth_append)
    with assms(1) q show False by blast
  qed
  ultimately show "i < j" by simp
qed

text \<open>C6. For every step call, in the returned event list every OrderAccepted event precedes
  every ShotFired, Damage and Destroyed event, and every one of these precedes every Routed
  event; the list is the concatenation of the events of the phases in phase order, where
  movement and spotting return no event.\<close>

theorem step_event_order:
  assumes "step e dt_ms = Inr (evts, e')"
  shows "(\<exists>ev1 e1 ev2 us2 ev3 us3 targets ev5 us5 r5 ev6 us6 r6.
      apply_orders_now e = (ev1, e1)
      \<and> move dt_ms (units (state e1)) = Inr (ev2, us2)
      \<and> update_spotting us2 = Inr (ev3, us3)
      \<and> find_targets (ts_ms (state e1)) us3 = Inr targets
      \<and> combat dt_ms (ts_ms (state e1)) targets us3 (rng e1) = Inr (ev5, us5, r5)
      \<and> morale (ts_ms (state e1)) us5 r5 = Inr (ev6, us6, r6)
      \<and> evts = ev1 @ ev2 @ ev3 @ ev5 @ ev6 \<and> ev2 = [] \<and> ev3 = []
      \<and> (\<forall>x \<in> set ev1. ev_kind x = ''OrderAccepted'')
      \<and> (\<forall>x \<in> set ev5. combat_kind (ev_kind x))
      \<and> (\<forall>x \<in> set ev6. ev_kind x = ''Routed''))
    \<and> precedes (\<lambda>x. ev_kind x = ''OrderAccepted'') (\<lambda>x. combat_kind (ev_kind x)) evts
    \<and> precedes (\<lambda>x. ev_kind x = ''OrderAccepted'') (\<lambda>x. ev_kind x = ''Routed'') evts
    \<and> precedes (\<lambda>x. combat_kind (ev_kind x)) (\<lambda>x. ev_kind x = ''Routed'') evts"
proof -
  from step_phases[OF assms] obtain ev1 e1 ev2 us2 ev3 us3 targets ev5 us5 r5 ev6 us6 r6 where
    p1: "apply_orders_now e = (ev1, e1)"
    and p2: "move dt_ms (units (state e1)) = Inr (ev2, us2)"
    and p3: "update_spotting us2 = Inr (ev3, us3)"
    and p4: "find_targets (ts_ms (state e1)) us3 = Inr targets"
    and p5: "combat dt_ms (ts_ms (state e1)) targets us3 (rng e1) = Inr (ev5, us5, r5)"
    and p6: "morale (ts_ms (state e1)) us5 r5 = Inr (ev6, us6, r6)"
    and ev: "evts = ev1 @ ev2 @ ev3 @ ev5 @ ev6"
    by blast
  have e2: "ev2 = []" using move_events[OF p2] by simp
  have e3: "ev3 = []" using update_spotting_frame[OF p3] by simp
  have k1: "\<forall>x \<in> set ev1. ev_kind x = ''OrderAccepted''"
    using apply_orders_now_facts(1)[OF p1] by (rule apply_orders_loop_kinds)
  have k5: "\<forall>x \<in> set ev5. combat_kind (ev_kind x)"
    using combat_loop_kinds[OF p5[unfolded combat_def]] by (simp add: combat_kind_def)
  have k6: "\<forall>x \<in> set ev6. ev_kind x = ''Routed''"
    using p6[unfolded morale_def] by (rule morale_loop_kinds)
  have evts: "evts = ev1 @ (ev5 @ ev6)" "evts = (ev1 @ ev5) @ ev6"
    by (simp_all add: ev e2 e3)
  have o1: "precedes (\<lambda>x. ev_kind x = ''OrderAccepted'') (\<lambda>x. combat_kind (ev_kind x)) evts"
    unfolding evts(1) using k1 k5 k6
    by (intro precedes_append) (auto simp: combat_kind_def)
  have o2: "precedes (\<lambda>x. ev_kind x = ''OrderAccepted'') (\<lambda>x. ev_kind x = ''Routed'') evts"
    unfolding evts(1) using k1 k5 k6
    by (intro precedes_append) (auto simp: combat_kind_def)
  have o3: "precedes (\<lambda>x. combat_kind (ev_kind x)) (\<lambda>x. ev_kind x = ''Routed'') evts"
    unfolding evts(2) using k1 k5 k6
    by (intro precedes_append) (auto simp: combat_kind_def)
  from p1 p2 p3 p4 p5 p6 ev e2 e3 k1 k5 k6 o1 o2 o3 show ?thesis by blast
qed

theorem step_event_order_witness:
  "\<exists>evts e'. step (example_engine always_hit [move_order ''B1'' (10, 0)]) 500 = Inr (evts, e')
     \<and> map ev_kind evts = [''OrderAccepted'', ''ShotFired'', ''Damage'', ''ShotFired'',
                            ''Damage'', ''Routed'']
     \<and> precedes (\<lambda>x. ev_kind x = ''OrderAccepted'') (\<lambda>x. combat_kind (ev_kind x)) evts
     \<and> precedes (\<lambda>x. ev_kind x = ''OrderAccepted'') (\<lambda>x. ev_kind x = ''Routed'') evts
     \<and> precedes (\<lambda>x. combat_kind (ev_kind x)) (\<lambda>x. ev_kind x = ''Routed'') evts"
proof -
  have "\<exists>evts e'. step (example_engine always_hit [move_order ''B1'' (10, 0)]) 500 = Inr (evts, e')
     \<and> map ev_kind evts = [''OrderAccepted'', ''ShotFired'', ''Damage'', ''ShotFired'',
                            ''Damage'', ''Routed'']"
    by (simp add: example_defs run_defs sqrt_100 hit_probability_pos)
  then obtain evts e' where
    s: "step (example_engine always_hit [move_order ''B1'' (10, 0)]) 500 = Inr (evts, e')"
    and k: "map ev_kind evts = [''OrderAccepted'', ''ShotFired'', ''Damage'', ''ShotFired'',
                            ''Damage'', ''Routed'']"
    by (elim exE conjE)
  from step_event_order[OF s] have
    "precedes (\<lambda>x. ev_kind x = ''OrderAccepted'') (\<lambda>x. combat_kind (ev_kind x)) evts
     \<and> precedes (\<lambda>x. ev_kind x = ''OrderAccepted'') (\<lambda>x. ev_kind x = ''Routed'') evts
     \<and> precedes (\<lambda>x. combat_kind (ev_kind x)) (\<lambda>x. ev_kind x = ''Routed'') evts"
    by (rule conjunct2)
  with s k show ?thesis
    apply -
    apply (elim conjE)
    apply (intro exI conjI)
        apply assumption+
    done
qed

section \<open>Movement\<close>



section \<open>Ammo\<close>

text \<open>C5. For every unit and every step, the ammo after the step is at most the ammo before
  and is not negative when it was not negative before; the ammo drops by exactly the number of
  ShotFired events of the step that name the unit as shooter, whether or not the shot hits;
  and targeting only selects a shooter whose ammo is positive.\<close>

theorem step_ammo:
  assumes "step e dt_ms = Inr (evts, e')"
    and "wf_units (units (state e))"
    and "i < length (units (state e))"
    and "u = snd (units (state e) ! i)"
    and "u' = snd (units (state e') ! i)"
  shows "ammo u' \<le> ammo u
     \<and> (0 \<le> ammo u \<longrightarrow> 0 \<le> ammo u')
     \<and> ammo u' = ammo u - int (length (filter (shot_by (uid u)) evts))
     \<and> uid u' = uid u
     \<and> (\<forall>ts us targets sk tk.
           distinct (map fst us) \<and> find_targets ts us = Inr targets \<and> (sk, tk) \<in> set targets
             \<longrightarrow> (\<exists>s. units_get us sk = Some s \<and> 0 < ammo s))"
proof -
  have d0: "distinct (map fst (units (state e)))" using assms(2) by (simp add: wf_units_def)
  from step_trace[OF assms(1) d0] obtain ev1 and e1 :: Engine and us2 us3 targets ev5 us5 r5 ev6 r6 where
    q4: "find_targets (ts_ms (state e)) us3 = Inr targets"
    and q5: "combat_loop (ts_ms (state e)) targets us3 (rng e) = Inr (ev5, us5, r5)"
    and q7: "evts = ev1 @ ev5 @ ev6"
    and r1: "units_rel order_frame (units (state e)) (units (state e1))"
    and r2: "units_rel move_frame (units (state e1)) us2"
    and r3: "units_rel spot_frame us2 us3"
    and r5: "units_rel combat_frame us3 us5"
    and r6: "units_rel morale_frame us5 (units (state e'))"
    and k1: "\<forall>x \<in> set ev1. ev_kind x = ''OrderAccepted''"
    and k6: "\<forall>x \<in> set ev6. ev_kind x = ''Routed''"
    by (elim exE conjE)
  let ?us0 = "units (state e)" and ?us1 = "units (state e1)"
  have l1: "i < length ?us1" using r1 assms(3) by (simp add: units_rel_length)
  have l2: "i < length us2" using r2 l1 by (simp add: units_rel_length)
  have l3: "i < length us3" using r3 l2 by (simp add: units_rel_length)
  have l5: "i < length us5" using r5 l3 by (simp add: units_rel_length)
  note n1 = units_rel_nth[OF r1 assms(3)] and n2 = units_rel_nth[OF r2 l1]
    and n3 = units_rel_nth[OF r3 l2] and n5 = units_rel_nth[OF r5 l3]
    and n6 = units_rel_nth[OF r6 l5]
  have wf1: "wf_units ?us1"
    using r1 _ assms(2) by (rule wf_units_rel) (rule order_frame_fields)
  have wf2: "wf_units us2"
    using r2 _ wf1 by (rule wf_units_rel) (rule move_frame_fields)
  have wf3: "wf_units us3"
    using r3 _ wf2 by (rule wf_units_rel) (rule spot_frame_fields)
  have d3: "distinct (map fst us3)" using wf3 by (simp add: wf_units_def)
  note o1 = order_frame_fields[OF conjunct2[OF n1]]
    and o2 = move_frame_fields[OF conjunct2[OF n2]]
    and o3 = spot_frame_fields[OF conjunct2[OF n3]]
    and o5 = combat_frame_fields[OF conjunct2[OF n5]]
    and o6 = morale_frame_fields[OF conjunct2[OF n6]]
  have u3: "uid (snd (us3 ! i)) = uid u" "ammo (snd (us3 ! i)) = ammo u"
    unfolding assms(4) by (simp_all add: o1 o2 o3)
  have u5: "uid u' = uid (snd (us5 ! i))" "ammo u' = ammo (snd (us5 ! i))"
    unfolding assms(5) by (simp_all add: o6)
  have u35: "uid (snd (us5 ! i)) = uid (snd (us3 ! i))"
    by (simp add: o5)
  have dt: "distinct (map fst targets)" using d3 q4 by (rule find_targets_distinct)
  note ca = combat_loop_ammo[OF wf3 dt q5 l3, unfolded u3]
  have f1: "filter (shot_by (uid u)) ev1 = []"
    using k1 by (auto simp: filter_empty_conv shot_by_def)
  have f6: "filter (shot_by (uid u)) ev6 = []"
    using k6 by (auto simp: filter_empty_conv shot_by_def)
  have cnt: "filter (shot_by (uid u)) evts = filter (shot_by (uid u)) ev5"
    unfolding q7 by (simp add: f1 f6)
  have eq: "ammo u' = ammo u - int (length (filter (shot_by (uid u)) evts))"
    using ca u5 by (simp add: cnt)
  have le: "ammo u' \<le> ammo u" using eq by simp
  have sel: "\<exists>s. units_get us sk = Some s \<and> 0 < ammo s"
    if "distinct (map fst us)" "find_targets ts us = Inr targets" "(sk, tk) \<in> set targets"
    for ts us targets sk tk
  proof -
    from find_targets_loop_sound[OF that(2)[unfolded find_targets_def] that(3)]
    obtain s where "(sk, s) \<in> set us" "0 < ammo s" by blast
    with that(1) show ?thesis by (auto simp: units_get_def)
  qed
  have nn: "0 \<le> ammo u'" if a: "0 \<le> ammo u"
  proof (cases "fst (us3 ! i) \<in> set (map fst targets)")
    case True
    then obtain tk where "(fst (us3 ! i), tk) \<in> set targets" by auto
    from sel[OF d3 q4 this] obtain s where
      s: "units_get us3 (fst (us3 ! i)) = Some s" "0 < ammo s" by blast
    from units_get_nth[OF d3 l3] s have "0 < ammo (snd (us3 ! i))" by simp
    with u3 ca u5 show ?thesis by (simp split: if_splits)
  next
    case False
    with ca u5 a show ?thesis by simp
  qed
  have nn': "0 \<le> ammo u \<longrightarrow> 0 \<le> ammo u'" using nn by (rule impI)
  have same: "uid u' = uid u" by (simp add: u5 u35 u3)
  have selall: "\<forall>ts us targets sk tk.
           distinct (map fst us) \<and> find_targets ts us = Inr targets \<and> (sk, tk) \<in> set targets
             \<longrightarrow> (\<exists>s. units_get us sk = Some s \<and> 0 < ammo s)"
    by (intro allI impI, elim conjE) (rule sel)
  show ?thesis
    apply (intro conjI)
        apply (rule le)
       apply (rule nn')
      apply (rule eq)
     apply (rule same)
    apply (rule selall)
    done
qed

theorem step_ammo_witness:
  "\<exists>evts e'.
     step (example_engine always_miss []) 500 = Inr (evts, e')
     \<and> wf_units (units (state (example_engine always_miss [])))
     \<and> 0 < length (units (state (example_engine always_miss [])))
     \<and> ammo (snd (units (state (example_engine always_miss [])) ! 0)) = 200
     \<and> length (filter (shot_by ''B1'') evts) = 1
     \<and> ammo (snd (units (state e') ! 0)) = 199"
proof -
  let ?E = "example_engine always_miss []"
  have "\<exists>evts e'. step ?E 500 = Inr (evts, e') \<and> length (filter (shot_by ''B1'') evts) = 1"
    by (simp add: example_defs run_defs hit_probability_miss shot_by_def)
  then obtain evts e' where s: "step ?E 500 = Inr (evts, e')"
    and c: "length (filter (shot_by ''B1'') evts) = 1"
    by (elim exE conjE)
  have h2: "wf_units (units (state ?E))" and h3: "0 < length (units (state ?E))"
    and a: "ammo (snd (units (state ?E) ! 0)) = 200"
    and i: "uid (snd (units (state ?E) ! 0)) = ''B1''"
    by (simp_all add: example_defs wf_units_def)
  from step_ammo[OF s h2 h3 refl refl]
  have "ammo (snd (units (state e') ! 0))
          = ammo (snd (units (state ?E) ! 0))
            - int (length (filter (shot_by (uid (snd (units (state ?E) ! 0)))) evts))"
    by (elim conjE)
  then have "ammo (snd (units (state e') ! 0)) = 199"
    unfolding a i c by simp
  with s h2 h3 a c show ?thesis
    apply -
    apply (intro exI conjI)
         apply assumption+
    done
qed

section \<open>Routing is terminal\<close>

text \<open>C4. Along every sequence of apply_orders and step calls on an engine whose unit identifiers
  are unique, a unit whose routed flag is true stays routed; its position, its two intent
  fields, its ammo and its last fire time never change; no OrderAccepted event and no ShotFired
  event names it; after any step no spotted-by set contains its identifier; and targeting never
  selects a routed unit as a shooter.\<close>

theorem routed_is_terminal:
  assumes "run_calls e calls = Inr (evss, e')"
    and "wf_units (units (state e))"
    and "i < length (units (state e))"
    and "u = snd (units (state e) ! i)"
    and "u' = snd (units (state e') ! i)"
    and "routed u"
  shows "routed u' \<and> uid u' = uid u \<and> pos u' = pos u
     \<and> intent_target_pos u' = intent_target_pos u \<and> target_id u' = target_id u
     \<and> ammo u' = ammo u \<and> last_fire_time u' = last_fire_time u
     \<and> (\<forall>evts \<in> set evss. \<forall>x \<in> set evts.
            \<not> order_accepted_for (uid u) x \<and> \<not> shot_by (uid u) x)
     \<and> ((\<exists>dt. Step dt \<in> set calls)
          \<longrightarrow> (\<forall>j < length (units (state e')). uid u \<notin> spotted_by (snd (units (state e') ! j))))
     \<and> (\<forall>ts us targets k v.
           distinct (map fst us) \<and> find_targets ts us = Inr targets \<and> (k, v) \<in> set us \<and> routed v
             \<longrightarrow> k \<notin> fst ` set targets)"
proof -
  note h = run_calls_routed[OF assms(1,2,3) assms(6)[unfolded assms(4)]]
  have ft: "\<forall>ts us targets k v.
           distinct (map fst us) \<and> find_targets ts us = Inr targets \<and> (k, v) \<in> set us \<and> routed v
             \<longrightarrow> k \<notin> fst ` set targets"
    by (intro allI impI, elim conjE) (rule find_targets_not_routed)
  from h ft show ?thesis unfolding assms(4,5) by simp
qed

theorem routed_is_terminal_witness:
  "\<exists>evss e'.
     run_calls example_routed_engine
        [Apply_orders [move_order ''B1'' (10, 0)], Step 500, Step 500] = Inr (evss, e')
     \<and> wf_units (units (state example_routed_engine))
     \<and> 0 < length (units (state example_routed_engine))
     \<and> routed (snd (units (state example_routed_engine) ! 0))
     \<and> map (map ev_kind) evss = [[''ShotFired'', ''Damage''], []]
     \<and> routed (snd (units (state e') ! 0))
     \<and> pos (snd (units (state e') ! 0)) = (0, 0)
     \<and> intent_target_pos (snd (units (state e') ! 0)) = None
     \<and> ammo (snd (units (state e') ! 0)) = 200"
proof -
  let ?E = "example_routed_engine"
  let ?cs = "[Apply_orders [move_order ''B1'' (10, 0)], Step 500, Step 500]"
  have "\<exists>evss e'. run_calls ?E ?cs = Inr (evss, e')
          \<and> map (map ev_kind) evss = [[''ShotFired'', ''Damage''], []]"
    by (simp add: example_routed_state_def example_routed_engine_def example_defs run_defs
        hit_probability_pos)
  then obtain evss e' where s: "run_calls ?E ?cs = Inr (evss, e')"
    and k: "map (map ev_kind) evss = [[''ShotFired'', ''Damage''], []]"
    by (elim exE conjE)
  have h2: "wf_units (units (state ?E))" and h3: "0 < length (units (state ?E))"
    and h6: "routed (snd (units (state ?E) ! 0))"
    and v: "pos (snd (units (state ?E) ! 0)) = (0, 0)"
      "intent_target_pos (snd (units (state ?E) ! 0)) = None"
      "ammo (snd (units (state ?E) ! 0)) = 200"
    by (simp_all add: example_routed_state_def example_routed_engine_def example_defs
        wf_units_def)
  from routed_is_terminal[OF s h2 h3 refl refl h6]
  have "routed (snd (units (state e') ! 0))
     \<and> pos (snd (units (state e') ! 0)) = (0, 0)
     \<and> intent_target_pos (snd (units (state e') ! 0)) = None
     \<and> ammo (snd (units (state e') ! 0)) = 200"
    unfolding v by (elim conjE) (intro conjI)
  with s h2 h3 h6 k show ?thesis
    apply -
    apply (elim conjE)
    apply (intro exI conjI)
            apply assumption+
    done
qed

section \<open>Destroyed units that are not routed\<close>



section \<open>The stored attack target\<close>

text \<open>C9. For every two engines that differ only in the \<open>target_id\<close> fields of their units, a step
  raises the same exception or returns the same events (OrderAccepted, ShotFired, Damage,
  Destroyed and Routed alike) and engines that again differ only in \<open>target_id\<close> fields, so with
  identical positions, hit points, ammo and routed flags; targeting selects the same pairs
  whatever the \<open>target_id\<close> fields are, and combat does the same; an accepted attack order stores
  the target id in the unit and echoes it in the OrderAccepted event.\<close>

theorem target_id_is_never_read:
  assumes "erase_engine e1 = erase_engine e2"
  shows "erase_step_res (step e1 dt_ms) = erase_step_res (step e2 dt_ms)
    \<and> (\<forall>evts e1'. step e1 dt_ms = Inr (evts, e1') \<longrightarrow>
          (\<exists>e2'. step e2 dt_ms = Inr (evts, e2') \<and> erase_engine e1' = erase_engine e2'
             \<and> length (units (state e2')) = length (units (state e1'))
             \<and> (\<forall>i < length (units (state e1')).
                   fst (units (state e1') ! i) = fst (units (state e2') ! i)
                   \<and> pos (snd (units (state e1') ! i)) = pos (snd (units (state e2') ! i))
                   \<and> hp (snd (units (state e1') ! i)) = hp (snd (units (state e2') ! i))
                   \<and> ammo (snd (units (state e1') ! i)) = ammo (snd (units (state e2') ! i))
                   \<and> routed (snd (units (state e1') ! i)) = routed (snd (units (state e2') ! i)))))
    \<and> (\<forall>ts us. find_targets ts (erase_units us) = find_targets ts us)
    \<and> (\<forall>ts targets us r. combat dt_ms ts targets (erase_units us) r
                            = erase_combat_res (combat dt_ms ts targets us r))
    \<and> (\<forall>ts ord us u t.
          units_get us (unit_id ord) = Some u \<and> \<not> routed u \<and> kind ord = ''attack''
          \<and> target_unit_id ord = Some t \<and> t \<noteq> []
          \<longrightarrow> apply_order ts ord us =
                ([mk_Event ''OrderAccepted'' ts
                    [(''unit_id'', Str (uid u)), (''kind'', Str ''attack''), (''target'', Str t)]],
                 units_upd us (unit_id ord) (\<lambda>u. u\<lparr> target_id := Some t \<rparr>)))"
proof -
  have a: "erase_step_res (step e1 dt_ms) = erase_step_res (step e2 dt_ms)"
    using assms by (rule step_erase)
  have b: "\<exists>e2'. step e2 dt_ms = Inr (evts, e2') \<and> erase_engine e1' = erase_engine e2'
             \<and> length (units (state e2')) = length (units (state e1'))
             \<and> (\<forall>i < length (units (state e1')).
                   fst (units (state e1') ! i) = fst (units (state e2') ! i)
                   \<and> pos (snd (units (state e1') ! i)) = pos (snd (units (state e2') ! i))
                   \<and> hp (snd (units (state e1') ! i)) = hp (snd (units (state e2') ! i))
                   \<and> ammo (snd (units (state e1') ! i)) = ammo (snd (units (state e2') ! i))
                   \<and> routed (snd (units (state e1') ! i)) = routed (snd (units (state e2') ! i)))"
    if s: "step e1 dt_ms = Inr (evts, e1')" for evts e1'
  proof -
    from a s obtain e2' where s2: "step e2 dt_ms = Inr (evts, e2')"
      and e: "erase_engine e1' = erase_engine e2'"
      by (cases "step e2 dt_ms") (auto simp: erase_step_res_def split: prod.splits)
    note u = erase_engine_eqD(5)[OF e]
    from arg_cong[OF u, of length] have l: "length (units (state e2')) = length (units (state e1'))"
      by simp
    from s2 e l erase_units_eq_nth[OF u] show ?thesis by blast
  qed
  have c: "\<forall>ts us. find_targets ts (erase_units us) = find_targets ts us"
    by (simp add: find_targets_erase)
  have d: "\<forall>ts targets us r. combat dt_ms ts targets (erase_units us) r
                            = erase_combat_res (combat dt_ms ts targets us r)"
    by (simp add: combat_def combat_loop_erase)
  have f: "\<forall>ts ord us u t.
          units_get us (unit_id ord) = Some u \<and> \<not> routed u \<and> kind ord = ''attack''
          \<and> target_unit_id ord = Some t \<and> t \<noteq> []
          \<longrightarrow> apply_order ts ord us =
                ([mk_Event ''OrderAccepted'' ts
                    [(''unit_id'', Str (uid u)), (''kind'', Str ''attack''), (''target'', Str t)]],
                 units_upd us (unit_id ord) (\<lambda>u. u\<lparr> target_id := Some t \<rparr>))"
    by (simp add: apply_order_def)
  from a b c d f show ?thesis by blast
qed

theorem target_id_is_never_read_witness:
  "erase_engine (example_engine always_hit []) = erase_engine example_retargeted_engine
   \<and> target_id (snd (units (state (example_engine always_hit [])) ! 0)) = None
   \<and> target_id (snd (units (state example_retargeted_engine) ! 0)) = Some ''R9''
   \<and> (\<exists>evts e1' e2'.
         step (example_engine always_hit []) 500 = Inr (evts, e1')
         \<and> step example_retargeted_engine 500 = Inr (evts, e2')
         \<and> map ev_kind evts = [''ShotFired'', ''Damage'', ''ShotFired'', ''Damage'', ''Routed'']
         \<and> erase_engine e1' = erase_engine e2')"
proof -
  let ?E1 = "example_engine always_hit []" and ?E2 = "example_retargeted_engine"
  have h: "erase_engine ?E1 = erase_engine ?E2"
    by (simp add: example_retargeted_engine_def example_defs erase_engine_def erase_target_def)
  have t: "target_id (snd (units (state ?E1) ! 0)) = None"
    "target_id (snd (units (state ?E2) ! 0)) = Some ''R9''"
    by (simp_all add: example_retargeted_engine_def example_defs)
  have "\<exists>evts e1'. step ?E1 500 = Inr (evts, e1')
          \<and> map ev_kind evts = [''ShotFired'', ''Damage'', ''ShotFired'', ''Damage'', ''Routed'']"
    by (simp add: example_defs run_defs hit_probability_pos)
  then obtain evts e1' where s: "step ?E1 500 = Inr (evts, e1')"
    and k: "map ev_kind evts = [''ShotFired'', ''Damage'', ''ShotFired'', ''Damage'', ''Routed'']"
    by (elim exE conjE)
  from target_id_is_never_read[OF h, of 500]
  have "\<forall>evts e1'. step ?E1 500 = Inr (evts, e1') \<longrightarrow>
          (\<exists>e2'. step ?E2 500 = Inr (evts, e2') \<and> erase_engine e1' = erase_engine e2')"
    by blast
  with s obtain e2' where s2: "step ?E2 500 = Inr (evts, e2')"
    and e: "erase_engine e1' = erase_engine e2'"
    by blast
  from h t s s2 k e show ?thesis
    apply -
    apply (intro exI conjI)
          apply assumption+
    done
qed

section \<open>Determinism\<close>



end
